theory Spec2Isabelle
  imports Main
begin

section \<open>Values, errors and promises\<close>

text \<open>
  The model follows \<^verbatim>\<open>src/electron/network.js\<close>. A JavaScript error is a
  constructor name with a message; \<open>err.stack\<close> is supplied by the engine, so the router
  takes it as a function of the error.
\<close>

datatype jserror = Error string | TypeError string

fun message :: "jserror \<Rightarrow> string" where
  "message (Error m) = m"
| "message (TypeError m) = m"

text \<open>How a promise settles: \<open>then\<close> sees \<open>Fulfilled\<close>, \<open>catch\<close> sees \<open>Rejected\<close>.\<close>

datatype 'a promise = Fulfilled 'a | Rejected jserror

text \<open>A promise that can still be outstanding (an awaitable that nobody has settled yet).\<close>

datatype 'a pstate = Pending | Settled "'a promise"

text \<open>
  What the synchronous run of an async handler, up to its next suspension, ends in:
  it returns, it throws, or it is suspended on the awaitable with the given id.
\<close>

datatype 'a outcome = Return 'a | Throw jserror | Await nat

text \<open>The values the wait list hands to waiters in this file.\<close>

datatype jsvalue = Undefined | Boolean bool

section \<open>Buffers and hex\<close>

text \<open>
  A \<open>Buffer\<close> is a list of bytes. \<open>Buffer.from(s, 'hex')\<close> decodes pairs of hex digits
  of either case and stops at the first pair that is not hex (an odd last character is
  dropped); \<open>buf.toString('hex')\<close> writes two lower-case digits per byte.
\<close>

type_synonym buffer = "nat list"

definition hexval :: "char \<Rightarrow> nat option" where
  "hexval c =
     (let n = (of_char c :: nat) in
      if 48 \<le> n \<and> n \<le> 57 then Some (n - 48)
      else if 97 \<le> n \<and> n \<le> 102 then Some (n - 87)
      else if 65 \<le> n \<and> n \<le> 70 then Some (n - 55)
      else None)"

fun fromHex :: "string \<Rightarrow> buffer" where
  "fromHex (a # b # r) =
     (case hexval a of
        None \<Rightarrow> []
      | Some x \<Rightarrow> (case hexval b of None \<Rightarrow> [] | Some y \<Rightarrow> (16 * x + y) # fromHex r))"
| "fromHex _ = []"

definition hexdigit :: "nat \<Rightarrow> char" where
  "hexdigit d = ''0123456789abcdef'' ! d"

definition toHex :: "buffer \<Rightarrow> string" where
  "toHex b = concat (map (\<lambda>x. [hexdigit (x div 16), hexdigit (x mod 16)]) b)"

section \<open>The state of a Network object\<close>

text \<open>
  Channels and identities are objects of the protocol library: \<open>ch_ref\<close> and \<open>id_ref\<close>
  are their object identities (the keys of the \<open>WeakMap\<close> and the \<open>WeakSet\<close>, and what
  \<open>includes\<close> compares). \<open>ch_readCount\<close> is \<open>metadata.readCount\<close>, \<open>None\<close> when the
  metadata or the field is missing; \<open>ch_isFeed\<close> is \<open>metadata.isFeed\<close>.
\<close>

record channel =
  ch_ref :: nat
  ch_id :: buffer
  ch_name :: string
  ch_messageCount :: int
  ch_readCount :: "int option"
  ch_isFeed :: bool

record identity =
  id_ref :: nat
  id_publicKey :: buffer
  id_name :: string

text \<open>An entry of \<open>pendingInvites\<close>. The \<open>decrypt\<close> closure is the one that belongs to
  \<open>pi_requestId\<close>; it is applied through the external functions below.\<close>

record pendingInvite =
  pi_requestId :: buffer
  pi_encoded :: string
  pi_waiter :: "nat option"

record encryptedInvite =
  ei_requestId :: buffer
  ei_box :: buffer

record invite =
  inv_channelName :: string
  inv_channelPubKey :: buffer

text \<open>A waiter registered with \<open>waitList.waitFor(topic, timeout)\<close>.\<close>

record waiter =
  w_id :: nat
  w_topic :: string
  w_timeout :: "nat option"

text \<open>One outstanding \<open>channel.waitForIncomingMessage(timeout)\<close> of an update loop,
  and one update loop suspended in \<open>await this.updateBadge()\<close>.\<close>

record loopWait =
  lw_channel :: channel
  lw_timeout :: "nat option"
  lw_entry :: nat

record loopBadge =
  lb_channel :: channel
  lb_timeout :: "nat option"

text \<open>
  The fields of \<open>this\<close>, and the state of the collaborators the handlers drive:
  \<^item> \<open>channels\<close>, \<open>identities\<close>, \<open>peerId\<close>: \<open>this.peerLinks\<close>;
  \<^item> \<open>waitList\<close>: the waiters registered and not yet settled, \<open>delivered\<close>: what was
    handed to settled waiters, oldest first;
  \<^item> \<open>pendingInvites\<close> maps an identity key to its entry object, \<open>inviteEntries\<close> is the
    store of those objects (a handler suspended in \<open>waitForInvite\<close> keeps the object);
  \<^item> \<open>swarmWaits\<close>: the cancellable awaitables returned by \<open>swarm.waitForInvite\<close>;
  \<^item> \<open>loopWaits\<close>, \<open>loopBadges\<close>: the update loops that are suspended, and where;
  \<^item> \<open>badgeCount\<close>: the last value given to \<open>options.setBadgeCount\<close>;
  \<^item> \<open>joined\<close>: the channels given to \<open>swarm.joinChannel\<close>;
  \<^item> \<open>nextId\<close>: the next fresh object identity.
\<close>

record network =
  isReady :: bool
  peerId :: buffer
  channels :: "channel list"
  identities :: "identity list"
  waitList :: "waiter list"
  delivered :: "(nat \<times> jsvalue promise) list"
  updateLoops :: "nat \<rightharpoonup> nat"
  updatedChannels :: "nat set"
  chainMapUpdated :: bool
  pendingInvites :: "string \<rightharpoonup> nat"
  inviteEntries :: "nat \<Rightarrow> pendingInvite"
  swarmWaits :: "nat \<rightharpoonup> encryptedInvite pstate"
  loopWaits :: "loopWait list"
  loopBadges :: "loopBadge list"
  badgeCount :: int
  joined :: "nat list"
  nextId :: nat

text \<open>The state the constructor builds: nothing loaded, nothing registered, not ready.\<close>

definition constructor :: network where
  "constructor =
     \<lparr> isReady = False, peerId = [], channels = [], identities = [],
       waitList = [], delivered = [], updateLoops = Map.empty, updatedChannels = {},
       chainMapUpdated = False, pendingInvites = Map.empty,
       inviteEntries = (\<lambda>_. \<lparr> pi_requestId = [], pi_encoded = [], pi_waiter = None \<rparr>),
       swarmWaits = Map.empty, loopWaits = [], loopBadges = [], badgeCount = 0,
       joined = [], nextId = 0 \<rparr>"

section \<open>The request router\<close>

text \<open>
  \<open>handle(type, handler, requireReady = true)\<close> registers a listener on
  \<open>network:type\<close>. A request is \<open>{seq, payload}\<close>; a response is \<open>{seq, payload}\<close> or
  \<open>{seq, error, stack}\<close> (\<open>{seq, error}\<close> for the readiness gate). The handler is an async
  function, so whatever it does it ends as a promise. The listener replies from \<open>then\<close>
  or from \<open>catch\<close>, that is when the promise settles; while it is pending nothing is
  sent. \<open>replies\<close> are the responses sent for the request, given the state the handler's
  promise is in; \<open>invoked\<close> lists the payloads the handler was called with.
\<close>

record 'p request =
  q_seq :: nat
  q_payload :: 'p

record 'v response =
  r_seq :: nat
  r_payload :: "'v option"
  r_error :: "string option"
  r_stack :: "string option"

record ('p, 'v) routed =
  replies :: "'v response list"
  invoked :: "'p list"

definition handle ::
  "(jserror \<Rightarrow> string) \<Rightarrow> network \<Rightarrow> ('p \<Rightarrow> 'v pstate) \<Rightarrow> bool \<Rightarrow> 'p request \<Rightarrow> ('p, 'v) routed"
where
  "handle stackOf this handler requireReady req =
     (if \<not> isReady this \<and> requireReady then
        \<lparr> replies = [\<lparr> r_seq = q_seq req, r_payload = None,
                        r_error = Some ''Not ready'', r_stack = None \<rparr>],
          invoked = [] \<rparr>
      else
        (case handler (q_payload req) of
           Pending \<Rightarrow> \<lparr> replies = [], invoked = [q_payload req] \<rparr>
         | Settled (Fulfilled result) \<Rightarrow>
             \<lparr> replies = [\<lparr> r_seq = q_seq req, r_payload = Some result,
                             r_error = None, r_stack = None \<rparr>],
               invoked = [q_payload req] \<rparr>
         | Settled (Rejected err) \<Rightarrow>
             \<lparr> replies = [\<lparr> r_seq = q_seq req, r_payload = None,
                             r_error = Some (message err), r_stack = Some (stackOf err) \<rparr>],
               invoked = [q_payload req] \<rparr>))"

text \<open>
  The promise of an async handler whose run has ended in the given outcome: fulfilled by
  a \<open>return\<close>, rejected by a \<open>throw\<close>, pending while the handler is suspended.
\<close>

definition settlement :: "'a outcome \<Rightarrow> 'a pstate" where
  "settlement out =
     (case out of
        Return v \<Rightarrow> Settled (Fulfilled v)
      | Throw e \<Rightarrow> Settled (Rejected e)
      | Await entry \<Rightarrow> Pending)"

text \<open>The operations \<open>initIPC\<close> registers, in its order, each with its \<open>requireReady\<close>.\<close>

definition initIPC :: "(string \<times> bool) list" where
  "initIPC =
     [(''init'', False), (''erase'', False), (''getStatus'', False),
      (''getChannels'', True), (''getIdentities'', True), (''createIdentityPair'', True),
      (''feedFromPublicKey'', True), (''removeIdentityPair'', True),
      (''updateChannelMetadata'', True), (''getMessageCount'', True),
      (''getReverseMessagesAtOffset'', True), (''waitForIncomingMessage'', True),
      (''postMessage'', True), (''requestInvite'', True), (''waitForInvite'', True),
      (''invite'', True), (''sendInvite'', True), (''acceptInvite'', True),
      (''renameIdentityPair'', True), (''waitForChainMapUpdate'', True),
      (''computeChainMap'', True)]"

text \<open>A message on \<open>network:type\<close>: the listener registered for \<open>type\<close> runs, if any.\<close>

definition ipc_emit ::
  "(jserror \<Rightarrow> string) \<Rightarrow> network \<Rightarrow> (string \<Rightarrow> 'p \<Rightarrow> 'v pstate) \<Rightarrow> string \<Rightarrow> 'p request
     \<Rightarrow> ('p, 'v) routed"
where
  "ipc_emit stackOf this handlers type req =
     (case map_of initIPC type of
        None \<Rightarrow> \<lparr> replies = [], invoked = [] \<rparr>
      | Some requireReady \<Rightarrow> handle stackOf this (handlers type) requireReady req)"

section \<open>Collaborators\<close>

text \<open>
  Modelled from the spec: the protocol object \<open>@peerlinks/protocol\<close> is a dependency
  whose code is not in the repository. The spec gives it "an enumerable list of
  channels/identities", lookups by name, removal and persistence. Removal takes the object
  out of the list; the lookups return the first match; persistence (\<open>saveChannel\<close>,
  \<open>saveIdentity\<close>) changes nothing the handlers read, and is taken to succeed.
\<close>

definition getChannel :: "network \<Rightarrow> string \<Rightarrow> channel option" where
  "getChannel this name = find (\<lambda>c. ch_name c = name) (channels this)"

definition getIdentity :: "network \<Rightarrow> string \<Rightarrow> identity option" where
  "getIdentity this name = find (\<lambda>i. id_name i = name) (identities this)"

definition removeChannel :: "network \<Rightarrow> channel \<Rightarrow> network" where
  "removeChannel this channel =
     this\<lparr>channels := filter (\<lambda>c. ch_ref c \<noteq> ch_ref channel) (channels this)\<rparr>"

definition removeIdentity :: "network \<Rightarrow> identity \<Rightarrow> network" where
  "removeIdentity this identity =
     this\<lparr>identities := filter (\<lambda>i. id_ref i \<noteq> id_ref identity) (identities this)\<rparr>"

text \<open>
  Modelled from the spec: the wait list \<open>promise-waitlist\<close> is a dependency whose code
  is not in the repository. Spec 4.1: \<open>waitFor(topic, timeout)\<close> registers a new waiter
  under the topic; \<open>resolve(topic, value)\<close> hands the value to every waiter registered on
  the topic and removes them all, and is a no-op on a topic with no waiters; a waiter
  whose timeout elapses first fails with a Timeout error.
\<close>

definition waitList_waitFor :: "network \<Rightarrow> string \<Rightarrow> nat option \<Rightarrow> nat \<times> network" where
  "waitList_waitFor this topic timeout =
     (nextId this,
      this\<lparr>waitList := waitList this
               @ [\<lparr> w_id = nextId this, w_topic = topic, w_timeout = timeout \<rparr>],
           nextId := Suc (nextId this)\<rparr>)"

definition waitList_resolve :: "network \<Rightarrow> string \<Rightarrow> jsvalue \<Rightarrow> network" where
  "waitList_resolve this topic v =
     this\<lparr>waitList := filter (\<lambda>w. w_topic w \<noteq> topic) (waitList this),
          delivered := delivered this
            @ map (\<lambda>w. (w_id w, Fulfilled v)) (filter (\<lambda>w. w_topic w = topic) (waitList this))\<rparr>"

definition Timeout :: jserror where
  "Timeout = Error ''Timed out''"

definition waitList_timeout :: "network \<Rightarrow> nat \<Rightarrow> network" where
  "waitList_timeout this entry =
     (case find (\<lambda>w. w_id w = entry \<and> w_timeout w \<noteq> None) (waitList this) of
        None \<Rightarrow> this
      | Some w \<Rightarrow>
          this\<lparr>waitList := filter (\<lambda>w. w_id w \<noteq> entry) (waitList this),
               delivered := delivered this @ [(entry, Rejected Timeout)]\<rparr>)"

text \<open>
  Modelled from the spec: the swarm \<open>@peerlinks/swarm\<close> is a dependency whose code is
  not in the repository. \<open>waitForInvite(requestId)\<close> returns a cancellable awaitable;
  cancelling fails it with a Cancelled error, and is a no-op once it has settled (spec 5).
\<close>

definition Cancelled :: jserror where
  "Cancelled = Error ''Cancelled''"

definition swarm_waitForInvite :: "network \<Rightarrow> buffer \<Rightarrow> nat \<times> network" where
  "swarm_waitForInvite this requestId =
     (nextId this,
      this\<lparr>swarmWaits := (swarmWaits this)(nextId this \<mapsto> Pending),
           nextId := Suc (nextId this)\<rparr>)"

definition cancel :: "network \<Rightarrow> nat \<Rightarrow> network" where
  "cancel this w =
     (case swarmWaits this w of
        Some Pending \<Rightarrow> this\<lparr>swarmWaits := (swarmWaits this)(w \<mapsto> Settled (Rejected Cancelled))\<rparr>
      | _ \<Rightarrow> this)"

text \<open>
  Functions of the dependencies that the model leaves open: the base58 encoder, the
  identity's invite issuance (the \<open>nat\<close> stands for its randomness; it gives the request
  id and the request) and the \<open>decrypt\<close> closure that issuance returns.
\<close>

record externals =
  bs58_encode :: "buffer \<Rightarrow> string"
  identity_requestInvite :: "identity \<Rightarrow> buffer \<Rightarrow> nat \<Rightarrow> buffer \<times> buffer"
  decrypt :: "buffer \<Rightarrow> encryptedInvite \<Rightarrow> jserror + invite"

section \<open>Lookups and the badge\<close>

definition channelById :: "network \<Rightarrow> string \<Rightarrow> channel option" where
  "channelById this id' = find (\<lambda>channel. ch_id channel = fromHex id') (channels this)"

definition identityByKey :: "network \<Rightarrow> string \<Rightarrow> identity option" where
  "identityByKey this key =
     find (\<lambda>identity. id_publicKey identity = fromHex key) (identities this)"

definition unread :: "channel \<Rightarrow> int" where
  "unread channel =
     max (ch_messageCount channel
            - (case ch_readCount channel of None \<Rightarrow> 0 | Some n \<Rightarrow> n)) 0"

definition updateBadge :: "network \<Rightarrow> network" where
  "updateBadge this = this\<lparr>badgeCount := sum_list (map unread (channels this))\<rparr>"

definition update_topic :: "channel \<Rightarrow> string" where
  "update_topic channel = ''update:'' @ toHex (ch_id channel)"

section \<open>runUpdateLoop\<close>

text \<open>
  The synchronous head of \<open>runUpdateLoop(channel, timeout)\<close>: the two guards, then the
  external wait is issued and stored in \<open>updateLoops\<close>, and the loop suspends on it.
\<close>

definition runUpdateLoop :: "network \<Rightarrow> channel \<Rightarrow> nat option \<Rightarrow> network" where
  "runUpdateLoop this channel timeout =
     (if ch_ref channel \<notin> set (map ch_ref (channels this)) then this
      else if updateLoops this (ch_ref channel) \<noteq> None then this
      else
        this\<lparr>loopWaits := loopWaits this
                 @ [\<lparr> lw_channel = channel, lw_timeout = timeout, lw_entry = nextId this \<rparr>],
             updateLoops := (updateLoops this)(ch_ref channel \<mapsto> nextId this),
             nextId := Suc (nextId this)\<rparr>)"

text \<open>
  The external wait \<open>w\<close> settles. Rejected: \<open>catch\<close> returns and \<open>finally\<close> deletes the
  registry entry. Fulfilled: the loop goes on to \<open>await this.updateBadge()\<close>, with its
  registry entry still in place.
\<close>

definition runUpdateLoop_woken :: "network \<Rightarrow> loopWait \<Rightarrow> unit promise \<Rightarrow> network" where
  "runUpdateLoop_woken this w settled =
     (case settled of
        Rejected e \<Rightarrow>
          this\<lparr>loopWaits := removeAll w (loopWaits this),
               updateLoops := (updateLoops this)(ch_ref (lw_channel w) := None)\<rparr>
      | Fulfilled _ \<Rightarrow>
          this\<lparr>loopWaits := removeAll w (loopWaits this),
               loopBadges := loopBadges this
                 @ [\<lparr> lb_channel = lw_channel w, lb_timeout = lw_timeout w \<rparr>]\<rparr>)"

text \<open>
  \<open>updateBadge\<close> settles for the loop \<open>b\<close>. Rejected: as above. Fulfilled: the channel is
  marked updated, \<open>true\<close> is broadcast on its topic, \<open>finally\<close> deletes the registry
  entry, and the loop calls itself, which runs its head at once.
\<close>

definition runUpdateLoop_badged :: "network \<Rightarrow> loopBadge \<Rightarrow> unit promise \<Rightarrow> network" where
  "runUpdateLoop_badged this b settled =
     (case settled of
        Rejected e \<Rightarrow>
          this\<lparr>loopBadges := removeAll b (loopBadges this),
               updateLoops := (updateLoops this)(ch_ref (lb_channel b) := None)\<rparr>
      | Fulfilled _ \<Rightarrow>
          (let this1 = updateBadge (this\<lparr>loopBadges := removeAll b (loopBadges this)\<rparr>);
               this2 = this1\<lparr>updatedChannels :=
                               insert (ch_ref (lb_channel b)) (updatedChannels this1)\<rparr>;
               this3 = waitList_resolve this2 (update_topic (lb_channel b)) (Boolean True);
               this4 = this3\<lparr>updateLoops := (updateLoops this3)(ch_ref (lb_channel b) := None)\<rparr>
           in runUpdateLoop this4 (lb_channel b) (lb_timeout b)))"

text \<open>
  The states a Network object goes through, as far as the update loops are concerned:
  a start request for any channel, at any time; the settling of an outstanding wait or of
  a badge update; and any step of other code, which never touches the registry of loops
  (\<open>updateLoops\<close> is written in \<open>runUpdateLoop\<close> only) or the suspended loops themselves.
\<close>

inductive reachable :: "network \<Rightarrow> bool" where
  created: "reachable constructor"
| start: "reachable this \<Longrightarrow> reachable (runUpdateLoop this channel timeout)"
| woken: "reachable this \<Longrightarrow> w \<in> set (loopWaits this)
            \<Longrightarrow> reachable (runUpdateLoop_woken this w settled)"
| badged: "reachable this \<Longrightarrow> b \<in> set (loopBadges this)
            \<Longrightarrow> reachable (runUpdateLoop_badged this b settled)"
| other: "reachable this \<Longrightarrow> updateLoops this' = updateLoops this
            \<Longrightarrow> loopWaits this' = loopWaits this \<Longrightarrow> loopBadges this' = loopBadges this
            \<Longrightarrow> reachable this'"

section \<open>The handlers\<close>

subsection \<open>removeIdentityPair\<close>

text \<open>
  The handler from top to bottom, its awaits on the protocol object taken to resolve
  before any other handler runs. \<open>channel\<close> is \<open>undefined\<close> when no channel has the id:
  the two removals are guarded, the read of \<open>channel.id\<close> for the topic is not, and
  throws a \<open>TypeError\<close> there (its message is the engine's).
\<close>

definition removeIdentityPair :: "network \<Rightarrow> string \<Rightarrow> string \<Rightarrow> unit outcome \<times> network" where
  "removeIdentityPair this channelId identityKey =
     (let channel = channelById this channelId;
          this1 = (case channel of None \<Rightarrow> this | Some c \<Rightarrow> removeChannel this c);
          identity = identityByKey this1 identityKey;
          this2 = (case identity of None \<Rightarrow> this1 | Some i \<Rightarrow> removeIdentity this1 i);
          this3 = updateBadge this2
      in case channel of
           None \<Rightarrow> (Throw (TypeError ''Cannot read property id of undefined''), this3)
         | Some c \<Rightarrow>
             (let this4 = waitList_resolve this3 (update_topic c) (Boolean False)
              in case pendingInvites this4 identityKey of
                   None \<Rightarrow> (Return (), this4)
                 | Some pending \<Rightarrow>
                     (case pi_waiter (inviteEntries this4 pending) of
                        None \<Rightarrow> (Return (), this4)
                      | Some w \<Rightarrow> (Return (), cancel this4 w))))"

subsection \<open>waitForIncomingMessage\<close>

text \<open>
  The head of the handler, up to \<open>await entry\<close>. The topic is built from the payload's
  \<open>channelId\<close>, a string, whose \<open>toString('hex')\<close> is the string itself.
\<close>

definition waitForIncomingMessage ::
  "network \<Rightarrow> string \<Rightarrow> nat option \<Rightarrow> jsvalue outcome \<times> network"
where
  "waitForIncomingMessage this channelId timeout =
     (case channelById this channelId of
        None \<Rightarrow> (Throw (Error (''Channel not found: '' @ channelId)), this)
      | Some channel \<Rightarrow>
          if ch_ref channel \<in> updatedChannels this then
            (Return (Boolean True),
             this\<lparr>updatedChannels := updatedChannels this - {ch_ref channel}\<rparr>)
          else
            (let (entry, this1) = waitList_waitFor this (''update:'' @ channelId) timeout
             in (Await entry, this1)))"

text \<open>
  The rest of the handler, run when \<open>entry\<close> has settled: the value handed to the waiter
  is returned as it is, an error is thrown on. Until then the handler stays suspended.
\<close>

definition waitForIncomingMessage_resume ::
  "network \<Rightarrow> channel \<Rightarrow> nat \<Rightarrow> jsvalue outcome \<times> network"
where
  "waitForIncomingMessage_resume this channel entry =
     (case map_of (delivered this) entry of
        None \<Rightarrow> (Await entry, this)
      | Some (Rejected e) \<Rightarrow> (Throw e, this)
      | Some (Fulfilled isAlive) \<Rightarrow>
          (Return isAlive, this\<lparr>updatedChannels := updatedChannels this - {ch_ref channel}\<rparr>))"

subsection \<open>requestInvite\<close>

definition requestInvite ::
  "externals \<Rightarrow> network \<Rightarrow> string \<Rightarrow> string outcome \<times> network"
where
  "requestInvite ext this identityKey =
     (case identityByKey this identityKey of
        None \<Rightarrow> (Throw (Error (''Identity not found: '' @ identityKey)), this)
      | Some identity \<Rightarrow>
          (case pendingInvites this identityKey of
             Some existing \<Rightarrow> (Return (pi_encoded (inviteEntries this existing)), this)
           | None \<Rightarrow>
               (let (requestId, request) =
                      identity_requestInvite ext identity (peerId this) (nextId this);
                    encoded = bs58_encode ext request;
                    entry = Suc (nextId this)
                in (Return encoded,
                    this\<lparr>pendingInvites := (pendingInvites this)(identityKey \<mapsto> entry),
                         inviteEntries := (inviteEntries this)
                           (entry := \<lparr> pi_requestId = requestId, pi_encoded = encoded,
                                       pi_waiter = None \<rparr>),
                         nextId := Suc (Suc (nextId this))\<rparr>))))"

subsection \<open>waitForInvite\<close>

text \<open>What the handler answers: \<open>false\<close>, or the channel (as \<open>serializeChannel\<close>
  reads it).\<close>

datatype inviteAnswer = NotAccepted | Accepted channel

text \<open>The head of the handler, up to \<open>await entry.waiter\<close>.\<close>

definition waitForInvite :: "network \<Rightarrow> string \<Rightarrow> inviteAnswer outcome \<times> network" where
  "waitForInvite this identityKey =
     (case identityByKey this identityKey of
        None \<Rightarrow> (Throw (Error (''Identity not found: '' @ identityKey)), this)
      | Some identity \<Rightarrow>
          (case pendingInvites this identityKey of
             None \<Rightarrow> (Throw (Error (''No pending invites for: '' @ id_name identity)), this)
           | Some entry \<Rightarrow>
               (let this1 = (case pi_waiter (inviteEntries this entry) of
                               None \<Rightarrow> this
                             | Some w \<Rightarrow> cancel this w);
                    (waiter, this2) =
                      swarm_waitForInvite this1 (pi_requestId (inviteEntries this1 entry))
                in (Await waiter,
                    this2\<lparr>inviteEntries := (inviteEntries this2)
                            (entry := (inviteEntries this2 entry)\<lparr>pi_waiter := Some waiter\<rparr>)\<rparr>))))"

text \<open>\<open>`${counter}`\<close>: the decimal digits of a number.\<close>

fun toString :: "nat \<Rightarrow> string" where
  "toString n =
     (if n < 10 then [hexdigit n]
      else toString (n div 10) @ [hexdigit (n mod 10)])"

declare toString.simps [simp del]

text \<open>Reading decimal digits back (not in the source; \<open>toString\<close> is one-to-one by it).\<close>

definition fromDigits :: "string \<Rightarrow> nat" where
  "fromDigits s = foldl (\<lambda>a c. 10 * a + (of_char c - 48)) 0 s"

text \<open>
  The loop that finds a suitable channel name, entered with \<open>channelName\<close> and \<open>counter\<close>.
  Each turn that does not leave the loop tries the next suffix; the names it tries are all
  different and the channels are finitely many, so it ends.
\<close>

function findChannelName :: "network \<Rightarrow> invite \<Rightarrow> string \<Rightarrow> nat \<Rightarrow> string" where
  "findChannelName this invite channelName counter =
     (case getChannel this channelName of
        None \<Rightarrow> channelName
      | Some existing \<Rightarrow>
          if ch_id existing = inv_channelPubKey invite then channelName
          else findChannelName this invite
                 (inv_channelName invite @ ''-'' @ toString (Suc counter)) (Suc counter))"
  by pat_completeness auto


lemma of_char_hexdigit: "d < 10 \<Longrightarrow> of_char (hexdigit d) = (48 + d :: nat)"
proof -
  assume "d < 10"
  then have "d \<in> {0, 1, 2, 3, 4, 5, 6, 7, 8, 9}"
    by auto
  then show ?thesis
    by (auto simp: hexdigit_def)
qed

lemma fromDigits_toString: "fromDigits (toString n) = n"
proof (induction n rule: toString.induct)
  case (1 n)
  show ?case
  proof (cases "n < 10")
    case True
    then show ?thesis
      by (simp add: toString.simps[of n] fromDigits_def of_char_hexdigit)
  next
    case False
    have "fromDigits (toString n) = 10 * fromDigits (toString (n div 10)) + (n mod 10)"
      using False by (simp add: toString.simps[of n] fromDigits_def of_char_hexdigit)
    then show ?thesis using 1 False by simp
  qed
qed

lemma inj_toString: "inj toString"
  by (metis fromDigits_toString injI)

text \<open>The suffixes beyond \<open>counter\<close> whose name some channel has.\<close>

definition taken :: "network \<Rightarrow> invite \<Rightarrow> nat \<Rightarrow> nat set" where
  "taken this invite counter =
     {k. counter < k
         \<and> inv_channelName invite @ ''-'' @ toString k \<in> set (map ch_name (channels this))}"

lemma finite_taken: "finite (taken this invite counter)"
proof -
  let ?f = "\<lambda>k. inv_channelName invite @ ''-'' @ toString k"
  have "inj ?f"
    using inj_toString by (auto simp: inj_def)
  then have "finite (?f -` set (map ch_name (channels this)))"
    by (intro finite_vimageI) auto
  moreover have "taken this invite counter \<subseteq> ?f -` set (map ch_name (channels this))"
    by (auto simp: taken_def)
  ultimately show ?thesis by (rule rev_finite_subset)
qed

lemma getChannel_name:
  "getChannel this n = Some c \<Longrightarrow> n \<in> set (map ch_name (channels this))"
  by (auto simp: getChannel_def find_Some_iff)

termination findChannelName
proof (relation "measure (\<lambda>(this, invite, channelName, counter).
          2 * card (taken this invite counter)
          + (if getChannel this channelName = None then 0 else 1))")
  show "wf (measure (\<lambda>(this, invite, channelName, counter).
          2 * card (taken this invite counter)
          + (if getChannel this channelName = None then 0 else 1)))"
    by simp
next
  fix this :: network and invite :: invite and channelName :: string and counter :: nat
    and existing
  assume found: "getChannel this channelName = Some existing"
  let ?next = "inv_channelName invite @ ''-'' @ toString (Suc counter)"
  have sub: "taken this invite (Suc counter) \<subseteq> taken this invite counter"
    by (auto simp: taken_def)
  have le: "card (taken this invite (Suc counter)) \<le> card (taken this invite counter)"
    by (rule card_mono[OF finite_taken sub])
  show "((this, invite, ?next, Suc counter), (this, invite, channelName, counter))
         \<in> measure (\<lambda>(this, invite, channelName, counter).
          2 * card (taken this invite counter)
          + (if getChannel this channelName = None then 0 else 1))"
  proof (cases "getChannel this ?next")
    case None
    then show ?thesis using found le by simp
  next
    case (Some c)
    then have "Suc counter \<in> taken this invite counter"
      using getChannel_name[OF Some] by (simp add: taken_def)
    moreover have "Suc counter \<notin> taken this invite (Suc counter)"
      by (simp add: taken_def)
    ultimately have "taken this invite (Suc counter) \<subset> taken this invite counter"
      using sub by auto
    then have "card (taken this invite (Suc counter)) < card (taken this invite counter)"
      by (rule psubset_card_mono[OF finite_taken])
    then show ?thesis using found Some by simp
  qed
qed

declare findChannelName.simps [simp del]

text \<open>
  Modelled from the spec: \<open>peerLinks.channelFromInvite\<close> belongs to the protocol object,
  whose code is not in the repository. Spec 4.4: "Create or attach the channel from the
  invite": when a channel of the given name exists under the invite's channel key, it is
  attached (returned as it is); when no channel has the name, a channel with that key and
  name is created and added. A name held by a channel under another key is refused (the
  handler's comment: with the matching key "the \<open>channelFromInvite\<close> will not throw").
\<close>

definition channelFromInvite ::
  "network \<Rightarrow> invite \<Rightarrow> string \<Rightarrow> jserror + channel \<times> network"
where
  "channelFromInvite this invite name =
     (case getChannel this name of
        Some existing \<Rightarrow>
          if ch_id existing = inv_channelPubKey invite then Inr (existing, this)
          else Inl (Error ''Channel with a duplicate name'')
      | None \<Rightarrow>
          (let channel = \<lparr> ch_ref = nextId this, ch_id = inv_channelPubKey invite,
                           ch_name = name, ch_messageCount = 0, ch_readCount = None,
                           ch_isFeed = False \<rparr>
           in Inr (channel,
                   this\<lparr>channels := channels this @ [channel], nextId := Suc (nextId this)\<rparr>)))"

text \<open>\<open>channel.setMetadata({...channel.metadata, isFeed: false})\<close>, on the object.\<close>

definition setNotFeed :: "network \<Rightarrow> channel \<Rightarrow> network" where
  "setNotFeed this channel =
     this\<lparr>channels := map (\<lambda>c. if ch_ref c = ch_ref channel then c\<lparr>ch_isFeed := False\<rparr> else c)
                         (channels this)\<rparr>"

text \<open>
  The rest of the handler, run when the awaitable \<open>waiter\<close> has settled; \<open>entry\<close> is the
  entry object the head read. A rejection of any kind is answered with \<open>false\<close>;
  \<open>finally\<close> clears \<open>entry.waiter\<close> on both paths. After an accepted invite the awaits on
  the protocol object are taken to resolve before any other handler runs.
\<close>

definition waitForInvite_resume ::
  "externals \<Rightarrow> network \<Rightarrow> string \<Rightarrow> identity \<Rightarrow> nat \<Rightarrow> nat \<Rightarrow> inviteAnswer outcome \<times> network"
where
  "waitForInvite_resume ext this identityKey identity entry waiter =
     (let cleared = this\<lparr>inviteEntries := (inviteEntries this)
                          (entry := (inviteEntries this entry)\<lparr>pi_waiter := None\<rparr>)\<rparr>
      in case swarmWaits this waiter of
           None \<Rightarrow> (Await waiter, this)
         | Some Pending \<Rightarrow> (Await waiter, this)
         | Some (Settled (Rejected e)) \<Rightarrow> (Return NotAccepted, cleared)
         | Some (Settled (Fulfilled encryptedInvite)) \<Rightarrow>
             (case decrypt ext (pi_requestId (inviteEntries cleared entry)) encryptedInvite of
                Inl e \<Rightarrow> (Throw e, cleared)
              | Inr invite \<Rightarrow>
                  (let channelName = findChannelName cleared invite (inv_channelName invite) 0
                   in case channelFromInvite cleared invite channelName of
                        Inl e \<Rightarrow> (Throw e, cleared)
                      | Inr (channel, this1) \<Rightarrow>
                          (let this2 = updateBadge (setNotFeed this1 channel);
                               this3 = this2\<lparr>joined := joined this2 @ [ch_ref channel]\<rparr>;
                               this4 = runUpdateLoop this3 channel None;
                               this5 = this4\<lparr>pendingInvites :=
                                               (pendingInvites this4)(identityKey := None)\<rparr>
                           in (Return (Accepted (channel\<lparr>ch_isFeed := False\<rparr>)), this5)))))"

subsection \<open>renameIdentityPair\<close>

text \<open>
  \<open>channelId\<close> and \<open>identityKey\<close> may be missing from the payload (\<open>None\<close>); a missing
  or empty one is falsy, and \<open>x && f(x)\<close> does not call \<open>f\<close> then.
\<close>

definition truthy :: "string option \<Rightarrow> bool" where
  "truthy s = (case s of None \<Rightarrow> False | Some x \<Rightarrow> x \<noteq> [])"

definition shown :: "string option \<Rightarrow> string" where
  "shown s = (case s of None \<Rightarrow> ''undefined'' | Some x \<Rightarrow> x)"

definition renameIdentityPair ::
  "network \<Rightarrow> string option \<Rightarrow> string option \<Rightarrow> string \<Rightarrow> unit outcome \<times> network"
where
  "renameIdentityPair this channelId identityKey newName =
     (let channel = (case channelId of
                       None \<Rightarrow> None
                     | Some c \<Rightarrow> if c = [] then None else channelById this c);
          identity = (case identityKey of
                        None \<Rightarrow> None
                      | Some k \<Rightarrow> if k = [] then None else identityByKey this k)
      in if truthy channelId \<and> channel = None then
           (Throw (Error (''Channel not found: '' @ shown channelId)), this)
         else if truthy identityKey \<and> identity = None then
           (Throw (Error (''Identity not found: '' @ shown identityKey)), this)
         else if getChannel this newName \<noteq> None then
           (Throw (Error (''Channel with name: '' @ [CHR 0x22] @ newName @ [CHR 0x22]
                          @ '' already exists'')), this)
         else if getIdentity this newName \<noteq> None then
           (Throw (Error (''Identity with name: '' @ [CHR 0x22] @ newName @ [CHR 0x22]
                          @ '' already exists'')), this)
         else
           (let this1 = (case channel of
                           None \<Rightarrow> this
                         | Some c \<Rightarrow>
                             updateBadge
                               (this\<lparr>channels :=
                                  map (\<lambda>x. if ch_ref x = ch_ref c then x\<lparr>ch_name := newName\<rparr>
                                           else x) (channels this)\<rparr>));
                this2 = (case identity of
                           None \<Rightarrow> this1
                         | Some i \<Rightarrow>
                             this1\<lparr>identities :=
                               map (\<lambda>x. if id_ref x = id_ref i then x\<lparr>id_name := newName\<rparr>
                                        else x) (identities this1)\<rparr>)
            in (Return (), this2)))"

section \<open>Example states\<close>

text \<open>
  A loaded Network with one channel, \<open>general\<close> under key \<open>aa\<close>, and one identity,
  \<open>alice\<close> under key \<open>bb\<close>; and the same with a pending invite for \<open>alice\<close> whose
  waiter is outstanding. \<open>stubs\<close> stands in for the external functions.
\<close>

definition chanA :: channel where
  "chanA = \<lparr> ch_ref = 0, ch_id = [170], ch_name = ''general'', ch_messageCount = 10,
             ch_readCount = Some 7, ch_isFeed = False \<rparr>"

definition alice :: identity where
  "alice = \<lparr> id_ref = 1, id_publicKey = [187], id_name = ''alice'' \<rparr>"

definition loaded :: network where
  "loaded = constructor\<lparr>isReady := True, channels := [chanA], identities := [alice],
                        nextId := 2\<rparr>"

definition invited :: network where
  "invited =
     loaded\<lparr>pendingInvites := [''bb'' \<mapsto> 5],
            inviteEntries := (inviteEntries loaded)
              (5 := \<lparr> pi_requestId = [1], pi_encoded = ''req'', pi_waiter = Some 9 \<rparr>),
            swarmWaits := [9 \<mapsto> Pending],
            nextId := 10\<rparr>"

definition stubs :: externals where
  "stubs =
     \<lparr> bs58_encode = toHex,
       identity_requestInvite = (\<lambda>i p n. ([n], id_publicKey i @ [n])),
       decrypt = (\<lambda>r e. Inr \<lparr> inv_channelName = ''general'', inv_channelPubKey = ei_box e \<rparr>) \<rparr>"

text \<open>The same Network once the update loop of \<open>general\<close> has been started.\<close>

definition looping :: network where
  "looping = runUpdateLoop loaded chanA None"

text \<open>
  \<open>invited\<close>, once the swarm has handed over an encrypted invite: for a channel under
  the key \<open>cc\<close>, and for the channel under \<open>aa\<close>.
\<close>

definition acceptedB :: network where
  "acceptedB =
     invited\<lparr>swarmWaits :=
       [9 \<mapsto> Settled (Fulfilled \<lparr> ei_requestId = [1], ei_box = [204] \<rparr>)]\<rparr>"

definition acceptedA :: network where
  "acceptedA =
     invited\<lparr>swarmWaits :=
       [9 \<mapsto> Settled (Fulfilled \<lparr> ei_requestId = [1], ei_box = [170] \<rparr>)]\<rparr>"

text \<open>
  Three calls of \<open>waitForInvite\<close> for \<open>alice\<close>. \<open>invited\<close> is the state after the
  first (its waiter is 9); \<open>preempted\<close> is the state after the second; \<open>firstAnswered\<close>
  the state once the first call, its waiter cancelled, has run on to its end;
  \<open>thirdCall\<close> the state after the third.
\<close>

definition preempted :: network where
  "preempted = snd (waitForInvite invited ''bb'')"

definition firstAnswered :: network where
  "firstAnswered = snd (waitForInvite_resume stubs preempted ''bb'' alice 5 9)"

definition thirdCall :: network where
  "thirdCall = snd (waitForInvite firstAnswered ''bb'')"

section \<open>The invariant of the update loops\<close>

text \<open>
  The channels that have a suspended loop, one entry per loop; and what holds of them in
  every reachable state: no channel twice, the registry has exactly these channels, and
  an outstanding wait is the one the registry holds.
\<close>

definition loopRefs :: "network \<Rightarrow> nat list" where
  "loopRefs this = map (\<lambda>w. ch_ref (lw_channel w)) (loopWaits this)
                   @ map (\<lambda>b. ch_ref (lb_channel b)) (loopBadges this)"

definition loops_inv :: "network \<Rightarrow> bool" where
  "loops_inv this \<longleftrightarrow>
     distinct (loopRefs this)
     \<and> dom (updateLoops this) = set (loopRefs this)
     \<and> (\<forall>w \<in> set (loopWaits this). updateLoops this (ch_ref (lw_channel w)) = Some (lw_entry w))"

section \<open>Properties\<close>



subsection \<open>The router\<close>

lemma registered_requireReady:
  "type \<in> {''init'', ''erase'', ''getStatus'', ''getChannels'', ''getIdentities'',
            ''createIdentityPair'', ''feedFromPublicKey'', ''removeIdentityPair'',
            ''updateChannelMetadata'', ''getMessageCount'', ''getReverseMessagesAtOffset'',
            ''waitForIncomingMessage'', ''postMessage'', ''requestInvite'', ''waitForInvite'',
            ''invite'', ''sendInvite'', ''acceptInvite'', ''renameIdentityPair'',
            ''waitForChainMapUpdate'', ''computeChainMap''}
   \<Longrightarrow> map_of initIPC type = Some (type \<notin> {''init'', ''erase'', ''getStatus''})"
  by (elim insertE emptyE) (simp_all add: initIPC_def)

lemma registered_only:
  "map_of initIPC type = Some requireReady \<Longrightarrow>
     requireReady = (type \<notin> {''init'', ''erase'', ''getStatus''})"
  by (simp add: initIPC_def split: if_splits)

text \<open>
  C5, as the code has it. For a request to any of the operations \<open>initIPC\<close> registers,
  the router sends at most one response, tagged with the request's sequence number: the
  error \<open>Not ready\<close> when the readiness gate stops it; otherwise nothing while the
  handler's promise is pending, and, once it has settled, the handler's value when it was
  fulfilled or the error's message (and stack) when it was rejected. The router itself
  never fails: the rejection has become a response.
\<close>

theorem router_at_most_one_response:
  assumes "type \<in> {''init'', ''erase'', ''getStatus'', ''getChannels'', ''getIdentities'',
            ''createIdentityPair'', ''feedFromPublicKey'', ''removeIdentityPair'',
            ''updateChannelMetadata'', ''getMessageCount'', ''getReverseMessagesAtOffset'',
            ''waitForIncomingMessage'', ''postMessage'', ''requestInvite'', ''waitForInvite'',
            ''invite'', ''sendInvite'', ''acceptInvite'', ''renameIdentityPair'',
            ''waitForChainMapUpdate'', ''computeChainMap''}"
  shows "replies (ipc_emit stackOf this handlers type req) =
           (if \<not> isReady this \<and> type \<notin> {''init'', ''erase'', ''getStatus''} then
              [\<lparr> r_seq = q_seq req, r_payload = None, r_error = Some ''Not ready'',
                  r_stack = None \<rparr>]
            else
              (case handlers type (q_payload req) of
                 Pending \<Rightarrow> []
               | Settled (Fulfilled result) \<Rightarrow>
                   [\<lparr> r_seq = q_seq req, r_payload = Some result, r_error = None,
                       r_stack = None \<rparr>]
               | Settled (Rejected err) \<Rightarrow>
                   [\<lparr> r_seq = q_seq req, r_payload = None, r_error = Some (message err),
                       r_stack = Some (stackOf err) \<rparr>]))"
proof -
  have "map_of initIPC type = Some (type \<notin> {''init'', ''erase'', ''getStatus''})"
    using assms by (rule registered_requireReady)
  then show ?thesis
    by (simp add: ipc_emit_def handle_def split: pstate.splits promise.splits)
qed

theorem router_at_most_one_response_witness:
  "replies (ipc_emit (\<lambda>e. ''at handler'') loaded
              (\<lambda>t p. settlement (fst (renameIdentityPair loaded None (Some p) ''general'')))
              ''renameIdentityPair'' \<lparr> q_seq = 7, q_payload = ''bb'' \<rparr>)
     = [\<lparr> r_seq = 7, r_payload = None,
          r_error = Some (''Channel with name: '' @ [CHR 0x22] @ ''general'' @ [CHR 0x22]
                            @ '' already exists''),
          r_stack = Some ''at handler'' \<rparr>]
   \<and> replies (ipc_emit (\<lambda>e. ''at handler'') loaded
              (\<lambda>t p. settlement (fst (requestInvite stubs loaded p)))
              ''requestInvite'' \<lparr> q_seq = 8, q_payload = ''bb'' \<rparr>)
     = [\<lparr> r_seq = 8, r_payload = Some ''bb02'', r_error = None, r_stack = None \<rparr>]
   \<and> replies (ipc_emit (\<lambda>e. ''at handler'') constructor
              (\<lambda>t p. settlement (fst (requestInvite stubs constructor p)))
              ''requestInvite'' \<lparr> q_seq = 9, q_payload = ''bb'' \<rparr>)
     = [\<lparr> r_seq = 9, r_payload = None, r_error = Some ''Not ready'', r_stack = None \<rparr>]"
proof -
  have r: "isReady loaded" "\<not> isReady constructor"
    by (simp_all add: loaded_def constructor_def)
  have a: "settlement (fst (renameIdentityPair loaded None (Some ''bb'') ''general''))
             = Settled (Rejected (Error (''Channel with name: '' @ [CHR 0x22] @ ''general''
                                          @ [CHR 0x22] @ '' already exists'')))"
    by (simp add: settlement_def renameIdentityPair_def Let_def truthy_def identityByKey_def
        hexval_def loaded_def alice_def chanA_def getChannel_def constructor_def)
  have b: "settlement (fst (requestInvite stubs loaded ''bb'')) = Settled (Fulfilled ''bb02'')"
    by (simp add: settlement_def requestInvite_def identityByKey_def hexval_def stubs_def
        Let_def loaded_def alice_def constructor_def toHex_def hexdigit_def)
  have 1: "replies (ipc_emit (\<lambda>e. ''at handler'') loaded
              (\<lambda>t p. settlement (fst (renameIdentityPair loaded None (Some p) ''general'')))
              ''renameIdentityPair'' \<lparr> q_seq = 7, q_payload = ''bb'' \<rparr>)
     = [\<lparr> r_seq = 7, r_payload = None,
          r_error = Some (''Channel with name: '' @ [CHR 0x22] @ ''general'' @ [CHR 0x22]
                            @ '' already exists''),
          r_stack = Some ''at handler'' \<rparr>]"
    using router_at_most_one_response[of "''renameIdentityPair''" "\<lambda>e. ''at handler''" loaded
        "\<lambda>t p. settlement (fst (renameIdentityPair loaded None (Some p) ''general''))"
        "\<lparr> q_seq = 7, q_payload = ''bb'' \<rparr>"]
    by (simp add: r a)
  have 2: "replies (ipc_emit (\<lambda>e. ''at handler'') loaded
              (\<lambda>t p. settlement (fst (requestInvite stubs loaded p)))
              ''requestInvite'' \<lparr> q_seq = 8, q_payload = ''bb'' \<rparr>)
     = [\<lparr> r_seq = 8, r_payload = Some ''bb02'', r_error = None, r_stack = None \<rparr>]"
    using router_at_most_one_response[of "''requestInvite''" "\<lambda>e. ''at handler''" loaded
        "\<lambda>t p. settlement (fst (requestInvite stubs loaded p))"
        "\<lparr> q_seq = 8, q_payload = ''bb'' \<rparr>"]
    by (simp add: r b)
  have 3: "replies (ipc_emit (\<lambda>e. ''at handler'') constructor
              (\<lambda>t p. settlement (fst (requestInvite stubs constructor p)))
              ''requestInvite'' \<lparr> q_seq = 9, q_payload = ''bb'' \<rparr>)
     = [\<lparr> r_seq = 9, r_payload = None, r_error = Some ''Not ready'', r_stack = None \<rparr>]"
    using router_at_most_one_response[of "''requestInvite''" "\<lambda>e. ''at handler''" constructor
        "\<lambda>t p. settlement (fst (requestInvite stubs constructor p))"
        "\<lparr> q_seq = 9, q_payload = ''bb'' \<rparr>"]
    by (simp add: r)
  show ?thesis
    using 1 2 3 by (rule conjI[OF _ conjI])
qed

text \<open>
  C5 as stated fails: the Network is ready, \<open>waitForIncomingMessage\<close> is called for
  \<open>general\<close> with no timeout, the handler suspends on its waiter, and the request has
  no response.
\<close>

theorem router_pending_handler_no_response:
  "isReady loaded
   \<and> fst (waitForIncomingMessage loaded ''aa'' None) = Await 2
   \<and> replies (ipc_emit (\<lambda>e. ''at handler'') loaded
                (\<lambda>t p. settlement (fst (waitForIncomingMessage loaded p None)))
                ''waitForIncomingMessage'' \<lparr> q_seq = 7, q_payload = ''aa'' \<rparr>) = []"
  by (simp add: ipc_emit_def handle_def initIPC_def settlement_def waitForIncomingMessage_def
      channelById_def hexval_def waitList_waitFor_def loaded_def chanA_def constructor_def)

text \<open>
  C9. While the Network is not ready, a request for any of the eighteen operations
  registered without a third argument (and for whatever else is registered outside
  \<open>init\<close>, \<open>erase\<close> and \<open>getStatus\<close>) is answered with the error \<open>Not ready\<close> under its
  sequence number, and its handler is not called. A request for \<open>init\<close>, \<open>erase\<close> or
  \<open>getStatus\<close> is given to its handler, and answered from the handler's promise as if
  the Network were ready.
\<close>

theorem not_ready_gate:
  assumes "\<not> isReady this"
  shows "(type \<in> {''getChannels'', ''getIdentities'',
            ''createIdentityPair'', ''feedFromPublicKey'', ''removeIdentityPair'',
            ''updateChannelMetadata'', ''getMessageCount'', ''getReverseMessagesAtOffset'',
            ''waitForIncomingMessage'', ''postMessage'', ''requestInvite'', ''waitForInvite'',
            ''invite'', ''sendInvite'', ''acceptInvite'', ''renameIdentityPair'',
            ''waitForChainMapUpdate'', ''computeChainMap''}
          \<or> (\<exists>requireReady. map_of initIPC type = Some requireReady)
             \<and> type \<notin> {''init'', ''erase'', ''getStatus''}
         \<longrightarrow> ipc_emit stackOf this handlers type req =
               \<lparr> replies = [\<lparr> r_seq = q_seq req, r_payload = None,
                               r_error = Some ''Not ready'', r_stack = None \<rparr>],
                 invoked = [] \<rparr>)
       \<and> (type \<in> {''init'', ''erase'', ''getStatus''} \<longrightarrow>
            invoked (ipc_emit stackOf this handlers type req) = [q_payload req]
            \<and> replies (ipc_emit stackOf this handlers type req) =
                (case handlers type (q_payload req) of
                   Pending \<Rightarrow> []
                 | Settled (Fulfilled result) \<Rightarrow>
                     [\<lparr> r_seq = q_seq req, r_payload = Some result, r_error = None,
                         r_stack = None \<rparr>]
                 | Settled (Rejected err) \<Rightarrow>
                     [\<lparr> r_seq = q_seq req, r_payload = None, r_error = Some (message err),
                         r_stack = Some (stackOf err) \<rparr>]))"
proof -
  have gated: "ipc_emit stackOf this handlers type req =
               \<lparr> replies = [\<lparr> r_seq = q_seq req, r_payload = None,
                               r_error = Some ''Not ready'', r_stack = None \<rparr>],
                 invoked = [] \<rparr>"
    if "map_of initIPC type = Some True"
    using that assms by (simp add: ipc_emit_def handle_def)
  have 1: "map_of initIPC type = Some True"
    if "type \<in> {''getChannels'', ''getIdentities'',
            ''createIdentityPair'', ''feedFromPublicKey'', ''removeIdentityPair'',
            ''updateChannelMetadata'', ''getMessageCount'', ''getReverseMessagesAtOffset'',
            ''waitForIncomingMessage'', ''postMessage'', ''requestInvite'', ''waitForInvite'',
            ''invite'', ''sendInvite'', ''acceptInvite'', ''renameIdentityPair'',
            ''waitForChainMapUpdate'', ''computeChainMap''}"
    using that by (elim insertE emptyE) (simp_all add: initIPC_def)
  have 2: "map_of initIPC type = Some True"
    if "map_of initIPC type = Some requireReady" "type \<notin> {''init'', ''erase'', ''getStatus''}"
    for requireReady
    using registered_only[OF that(1)] that by simp
  have 3: "map_of initIPC type = Some False" if "type \<in> {''init'', ''erase'', ''getStatus''}"
    using that by (elim insertE emptyE) (simp_all add: initIPC_def)
  have open': "invoked (ipc_emit stackOf this handlers type req) = [q_payload req]
            \<and> replies (ipc_emit stackOf this handlers type req) =
                (case handlers type (q_payload req) of
                   Pending \<Rightarrow> []
                 | Settled (Fulfilled result) \<Rightarrow>
                     [\<lparr> r_seq = q_seq req, r_payload = Some result, r_error = None,
                         r_stack = None \<rparr>]
                 | Settled (Rejected err) \<Rightarrow>
                     [\<lparr> r_seq = q_seq req, r_payload = None, r_error = Some (message err),
                         r_stack = Some (stackOf err) \<rparr>])"
    if "type \<in> {''init'', ''erase'', ''getStatus''}"
    using 3[OF that]
    by (simp add: ipc_emit_def handle_def split: pstate.splits promise.splits)
  show ?thesis
  proof (intro conjI impI)
    assume "type \<in> {''getChannels'', ''getIdentities'',
            ''createIdentityPair'', ''feedFromPublicKey'', ''removeIdentityPair'',
            ''updateChannelMetadata'', ''getMessageCount'', ''getReverseMessagesAtOffset'',
            ''waitForIncomingMessage'', ''postMessage'', ''requestInvite'', ''waitForInvite'',
            ''invite'', ''sendInvite'', ''acceptInvite'', ''renameIdentityPair'',
            ''waitForChainMapUpdate'', ''computeChainMap''}
          \<or> (\<exists>requireReady. map_of initIPC type = Some requireReady)
             \<and> type \<notin> {''init'', ''erase'', ''getStatus''}"
    then have "map_of initIPC type = Some True"
    proof
      assume "type \<in> {''getChannels'', ''getIdentities'',
            ''createIdentityPair'', ''feedFromPublicKey'', ''removeIdentityPair'',
            ''updateChannelMetadata'', ''getMessageCount'', ''getReverseMessagesAtOffset'',
            ''waitForIncomingMessage'', ''postMessage'', ''requestInvite'', ''waitForInvite'',
            ''invite'', ''sendInvite'', ''acceptInvite'', ''renameIdentityPair'',
            ''waitForChainMapUpdate'', ''computeChainMap''}"
      then show ?thesis by (rule 1)
    next
      assume "(\<exists>requireReady. map_of initIPC type = Some requireReady)
             \<and> type \<notin> {''init'', ''erase'', ''getStatus''}"
      then obtain requireReady where "map_of initIPC type = Some requireReady"
        and "type \<notin> {''init'', ''erase'', ''getStatus''}"
        by blast
      then show ?thesis by (rule 2)
    qed
    then show "ipc_emit stackOf this handlers type req =
               \<lparr> replies = [\<lparr> r_seq = q_seq req, r_payload = None,
                               r_error = Some ''Not ready'', r_stack = None \<rparr>],
                 invoked = [] \<rparr>"
      by (rule gated)
  next
    assume a: "type \<in> {''init'', ''erase'', ''getStatus''}"
    show "invoked (ipc_emit stackOf this handlers type req) = [q_payload req]"
      using open'[OF a] by (rule conjunct1)
  next
    assume a: "type \<in> {''init'', ''erase'', ''getStatus''}"
    show "replies (ipc_emit stackOf this handlers type req) =
                (case handlers type (q_payload req) of
                   Pending \<Rightarrow> []
                 | Settled (Fulfilled result) \<Rightarrow>
                     [\<lparr> r_seq = q_seq req, r_payload = Some result, r_error = None,
                         r_stack = None \<rparr>]
                 | Settled (Rejected err) \<Rightarrow>
                     [\<lparr> r_seq = q_seq req, r_payload = None, r_error = Some (message err),
                         r_stack = Some (stackOf err) \<rparr>])"
      using open'[OF a] by (rule conjunct2)
  qed
qed

theorem not_ready_gate_witness:
  "\<not> isReady constructor
   \<and> ipc_emit (\<lambda>e. ''at handler'') constructor (\<lambda>t p. Settled (Fulfilled (5::nat)))
         ''waitForInvite'' \<lparr> q_seq = 3, q_payload = ''bb'' \<rparr>
       = \<lparr> replies = [\<lparr> r_seq = 3, r_payload = None, r_error = Some ''Not ready'',
                         r_stack = None \<rparr>],
           invoked = [] \<rparr>
   \<and> invoked (ipc_emit (\<lambda>e. ''at handler'') constructor (\<lambda>t p. Settled (Fulfilled (5::nat)))
         ''init'' \<lparr> q_seq = 4, q_payload = ''bb'' \<rparr>) = [''bb'']
   \<and> replies (ipc_emit (\<lambda>e. ''at handler'') constructor (\<lambda>t p. Settled (Fulfilled (5::nat)))
         ''init'' \<lparr> q_seq = 4, q_payload = ''bb'' \<rparr>)
       = [\<lparr> r_seq = 4, r_payload = Some 5, r_error = None, r_stack = None \<rparr>]
   \<and> invoked (ipc_emit (\<lambda>e. ''at handler'') constructor (\<lambda>t p. Settled (Fulfilled (5::nat)))
         ''erase'' \<lparr> q_seq = 5, q_payload = ''bb'' \<rparr>) = [''bb'']
   \<and> invoked (ipc_emit (\<lambda>e. ''at handler'') constructor (\<lambda>t p. Settled (Fulfilled (5::nat)))
         ''getStatus'' \<lparr> q_seq = 6, q_payload = ''bb'' \<rparr>) = [''bb'']"
proof -
  have a: "\<not> isReady constructor"
    by (simp add: constructor_def)
  let ?h = "\<lambda>(t::string) (p::string). (Settled (Fulfilled (5::nat)) :: nat pstate)"
  have 1: "ipc_emit (\<lambda>e. ''at handler'') constructor ?h
         ''waitForInvite'' \<lparr> q_seq = 3, q_payload = ''bb'' \<rparr>
       = \<lparr> replies = [\<lparr> r_seq = 3, r_payload = None, r_error = Some ''Not ready'',
                         r_stack = None \<rparr>],
           invoked = [] \<rparr>"
    using conjunct1[OF not_ready_gate[OF a, of "''waitForInvite''" "\<lambda>e. ''at handler''" ?h
        "\<lparr> q_seq = 3, q_payload = ''bb'' \<rparr>"]]
    by simp
  have 2: "invoked (ipc_emit (\<lambda>e. ''at handler'') constructor ?h
         ''init'' \<lparr> q_seq = 4, q_payload = ''bb'' \<rparr>) = [''bb'']
     \<and> replies (ipc_emit (\<lambda>e. ''at handler'') constructor ?h
         ''init'' \<lparr> q_seq = 4, q_payload = ''bb'' \<rparr>)
       = [\<lparr> r_seq = 4, r_payload = Some 5, r_error = None, r_stack = None \<rparr>]"
    using conjunct2[OF not_ready_gate[OF a, of "''init''" "\<lambda>e. ''at handler''" ?h
        "\<lparr> q_seq = 4, q_payload = ''bb'' \<rparr>"]]
    by simp
  have 3: "invoked (ipc_emit (\<lambda>e. ''at handler'') constructor ?h
         ''erase'' \<lparr> q_seq = 5, q_payload = ''bb'' \<rparr>) = [''bb'']"
    using conjunct2[OF not_ready_gate[OF a, of "''erase''" "\<lambda>e. ''at handler''" ?h
        "\<lparr> q_seq = 5, q_payload = ''bb'' \<rparr>"]]
    by simp
  have 4: "invoked (ipc_emit (\<lambda>e. ''at handler'') constructor ?h
         ''getStatus'' \<lparr> q_seq = 6, q_payload = ''bb'' \<rparr>) = [''bb'']"
    using conjunct2[OF not_ready_gate[OF a, of "''getStatus''" "\<lambda>e. ''at handler''" ?h
        "\<lparr> q_seq = 6, q_payload = ''bb'' \<rparr>"]]
    by simp
  show ?thesis
    using a 1 2 3 4 by simp
qed

subsection \<open>removeIdentityPair\<close>

text \<open>
  C1, as the code has it. When the channel of the payload exists and the identity key has
  a pending invite, \<open>removeIdentityPair\<close> returns, the waiter the entry refers to is
  cancelled if it was outstanding, and the entry is still in \<open>pendingInvites\<close>: the
  handler cancels, it does not delete.
\<close>

theorem removeIdentityPair_keeps_entry:
  assumes "channelById this channelId = Some channel"
    and "pendingInvites this identityKey = Some entry"
  shows "fst (removeIdentityPair this channelId identityKey) = Return ()
       \<and> pendingInvites (snd (removeIdentityPair this channelId identityKey)) identityKey
           = Some entry
       \<and> (\<forall>w. pi_waiter (inviteEntries this entry) = Some w \<and> swarmWaits this w = Some Pending
            \<longrightarrow> swarmWaits (snd (removeIdentityPair this channelId identityKey)) w
                  = Some (Settled (Rejected Cancelled)))"
  using assms
  by (auto simp: removeIdentityPair_def Let_def removeChannel_def removeIdentity_def
      updateBadge_def waitList_resolve_def cancel_def split: option.splits pstate.splits)

theorem removeIdentityPair_keeps_entry_witness:
  "channelById invited ''aa'' = Some chanA
   \<and> pendingInvites invited ''bb'' = Some 5
   \<and> pi_waiter (inviteEntries invited 5) = Some 9
   \<and> swarmWaits invited 9 = Some Pending
   \<and> fst (removeIdentityPair invited ''aa'' ''bb'') = Return ()
   \<and> pendingInvites (snd (removeIdentityPair invited ''aa'' ''bb'')) ''bb'' = Some 5
   \<and> swarmWaits (snd (removeIdentityPair invited ''aa'' ''bb'')) 9
       = Some (Settled (Rejected Cancelled))"
proof -
  have a: "channelById invited ''aa'' = Some chanA"
    by (simp add: channelById_def hexval_def invited_def loaded_def chanA_def constructor_def)
  have b: "pendingInvites invited ''bb'' = Some 5"
    by (simp add: invited_def)
  have c: "pi_waiter (inviteEntries invited 5) = Some 9"
    by (simp add: invited_def)
  have d: "swarmWaits invited 9 = Some Pending"
    by (simp add: invited_def)
  show ?thesis
    using a b c d removeIdentityPair_keeps_entry[OF a b] by simp
qed

text \<open>
  C1 as stated fails: \<open>alice\<close> has a pending invite, \<open>removeIdentityPair\<close> for her key
  returns, and \<open>pendingInvites\<close> still has the entry.
\<close>

theorem removeIdentityPair_entry_remains:
  "fst (removeIdentityPair invited ''aa'' ''bb'') = Return ()
   \<and> pendingInvites (snd (removeIdentityPair invited ''aa'' ''bb'')) ''bb'' = Some 5"
  by (simp add: removeIdentityPair_def channelById_def identityByKey_def hexval_def
      invited_def loaded_def chanA_def alice_def constructor_def Let_def removeChannel_def
      removeIdentity_def updateBadge_def waitList_resolve_def cancel_def)

text \<open>
  C2 fails on the code: no channel has the id \<open>00\<close>, so \<open>channel\<close> is \<open>undefined\<close>, and
  the read of \<open>channel.id\<close> throws.
\<close>

theorem removeIdentityPair_missing_channel_throws:
  "fst (removeIdentityPair loaded ''00'' ''bb'')
     = Throw (TypeError ''Cannot read property id of undefined'')"
  by (simp add: removeIdentityPair_def channelById_def hexval_def loaded_def chanA_def
      constructor_def Let_def)

subsection \<open>requestInvite\<close>

text \<open>
  C8. For an identity that has a pending invite, \<open>requestInvite\<close> returns the encoded
  request of the entry and leaves the state as it was: no request is issued, no entry
  written. So a call that returned a request returns the same request when repeated.
\<close>

theorem requestInvite_idempotent:
  "(identityByKey this identityKey = Some identity \<and> pendingInvites this identityKey = Some existing
      \<longrightarrow> requestInvite ext this identityKey
            = (Return (pi_encoded (inviteEntries this existing)), this))
   \<and> (requestInvite ext this identityKey = (Return encoded, this')
      \<longrightarrow> requestInvite ext this' identityKey = (Return encoded, this'))"
  by (auto simp: requestInvite_def identityByKey_def Let_def
      split: option.splits prod.splits)

theorem requestInvite_idempotent_witness:
  "identityByKey loaded ''bb'' = Some alice
   \<and> fst (requestInvite stubs loaded ''bb'') = Return ''bb02''
   \<and> requestInvite stubs (snd (requestInvite stubs loaded ''bb'')) ''bb''
       = (Return ''bb02'', snd (requestInvite stubs loaded ''bb''))
   \<and> pendingInvites invited ''bb'' = Some 5
   \<and> requestInvite stubs invited ''bb'' = (Return ''req'', invited)"
proof -
  have a: "identityByKey loaded ''bb'' = Some alice"
    by (simp add: identityByKey_def hexval_def loaded_def alice_def constructor_def)
  have a': "identityByKey invited ''bb'' = Some alice"
    by (simp add: identityByKey_def hexval_def invited_def loaded_def alice_def constructor_def)
  have b: "pendingInvites invited ''bb'' = Some 5"
    by (simp add: invited_def)
  have c: "fst (requestInvite stubs loaded ''bb'') = Return ''bb02''"
    by (simp add: requestInvite_def identityByKey_def hexval_def stubs_def Let_def loaded_def
        alice_def constructor_def toHex_def hexdigit_def)
  have d: "requestInvite stubs loaded ''bb''
             = (Return ''bb02'', snd (requestInvite stubs loaded ''bb''))"
    using c by (metis prod.collapse)
  have e: "pi_encoded (inviteEntries invited 5) = ''req''"
    by (simp add: invited_def)
  show ?thesis
    using a b c e
      requestInvite_idempotent[of loaded "''bb''" alice 0 stubs "''bb02''"
        "snd (requestInvite stubs loaded ''bb'')"]
      requestInvite_idempotent[of invited "''bb''" alice 5 stubs "''req''" invited]
      d a'
    by simp
qed

subsection \<open>renameIdentityPair\<close>

lemma getChannel_None_iff:
  "getChannel this n = None \<longleftrightarrow> n \<notin> set (map ch_name (channels this))"
  by (auto simp: getChannel_def find_None_iff)

lemma getIdentity_None_iff:
  "getIdentity this n = None \<longleftrightarrow> n \<notin> set (map id_name (identities this))"
  by (auto simp: getIdentity_def find_None_iff)

text \<open>
  C10. When \<open>newName\<close> is the name of a channel or of an identity, \<open>renameIdentityPair\<close>
  throws and the state is what it was: every check stands before the first write.
\<close>

theorem rename_taken_name_fails:
  assumes "newName \<in> set (map ch_name (channels this))
           \<or> newName \<in> set (map id_name (identities this))"
  shows "\<exists>e. renameIdentityPair this channelId identityKey newName = (Throw e, this)"
proof -
  have "getChannel this newName \<noteq> None \<or> getIdentity this newName \<noteq> None"
    using assms by (simp only: getChannel_None_iff getIdentity_None_iff) blast
  then show ?thesis
    by (auto simp: renameIdentityPair_def Let_def)
qed

theorem rename_taken_name_fails_witness:
  "''general'' \<in> set (map ch_name (channels loaded))
   \<and> renameIdentityPair loaded None (Some ''bb'') ''general''
       = (Throw (Error (''Channel with name: '' @ [CHR 0x22] @ ''general'' @ [CHR 0x22]
                        @ '' already exists'')), loaded)"
proof -
  have h: "''general'' \<in> set (map ch_name (channels loaded))"
    by (simp add: loaded_def chanA_def)
  from rename_taken_name_fails[OF disjI1[OF h], of None "Some ''bb''"]
  obtain e where e: "renameIdentityPair loaded None (Some ''bb'') ''general'' = (Throw e, loaded)"
    by blast
  have "fst (renameIdentityPair loaded None (Some ''bb'') ''general'')
          = Throw (Error (''Channel with name: '' @ [CHR 0x22] @ ''general'' @ [CHR 0x22]
                          @ '' already exists''))"
    by (simp add: renameIdentityPair_def Let_def truthy_def identityByKey_def hexval_def
        loaded_def alice_def chanA_def getChannel_def constructor_def)
  with e h show ?thesis by simp
qed

subsection \<open>runUpdateLoop\<close>

lemma distinct_map_removeAll:
  "distinct (map f xs) \<Longrightarrow> distinct (map f (removeAll x xs))"
  by (induction xs) auto

lemma image_removeAll:
  "distinct (map f xs) \<Longrightarrow> x \<in> set xs \<Longrightarrow> f ` set (removeAll x xs) = f ` set xs - {f x}"
  by (induction xs) (auto simp: image_iff)

lemma filter_distinct_le_one:
  "distinct (map f xs) \<Longrightarrow> length (filter (\<lambda>w. f w = c) xs) \<le> 1"
  by (induction xs) (auto simp: filter_empty_conv image_iff)

lemma loops_inv_constructor: "loops_inv constructor"
  by (simp add: loops_inv_def loopRefs_def constructor_def)

lemma loops_inv_runUpdateLoop:
  assumes "loops_inv this"
  shows "loops_inv (runUpdateLoop this channel timeout)"
proof (cases "ch_ref channel \<in> set (map ch_ref (channels this)) \<and> updateLoops this (ch_ref channel) = None")
  case False
  then show ?thesis using assms by (auto simp: runUpdateLoop_def)
next
  case True
  then have "ch_ref channel \<notin> dom (updateLoops this)"
    by (simp add: dom_def)
  then have notin: "ch_ref channel \<notin> set (loopRefs this)"
    using assms by (simp add: loops_inv_def)
  have d: "distinct (loopRefs this)" and dm: "dom (updateLoops this) = set (loopRefs this)"
    and en: "\<forall>w \<in> set (loopWaits this). updateLoops this (ch_ref (lw_channel w)) = Some (lw_entry w)"
    using assms by (auto simp: loops_inv_def)
  let ?that = "runUpdateLoop this channel timeout"
  have lw: "loopWaits ?that = loopWaits this @ [\<lparr> lw_channel = channel, lw_timeout = timeout, lw_entry = nextId this \<rparr>]"
    and lb: "loopBadges ?that = loopBadges this"
    and ul: "updateLoops ?that = (updateLoops this)(ch_ref channel \<mapsto> nextId this)"
    using True by (auto simp: runUpdateLoop_def)
  have 1: "distinct (loopRefs ?that)"
    using d notin by (auto simp: loopRefs_def lw lb)
  have 2: "dom (updateLoops ?that) = set (loopRefs ?that)"
    using dm by (auto simp: loopRefs_def lw lb ul)
  have other: "ch_ref (lw_channel w) \<noteq> ch_ref channel" if "w \<in> set (loopWaits this)" for w
  proof -
    have "ch_ref (lw_channel w) \<in> set (loopRefs this)"
      using that by (simp add: loopRefs_def)
    then show ?thesis using notin by metis
  qed
  have 3: "\<forall>w \<in> set (loopWaits ?that). updateLoops ?that (ch_ref (lw_channel w)) = Some (lw_entry w)"
    using en other by (auto simp: lw ul)
  show ?thesis unfolding loops_inv_def using 1 2 3 by blast
qed

lemma loops_inv_fields:
  assumes "loops_inv this" "updateLoops this' = updateLoops this"
    "loopWaits this' = loopWaits this" "loopBadges this' = loopBadges this"
  shows "loops_inv this'"
  using assms by (simp add: loops_inv_def loopRefs_def)

lemma loops_inv_drop_wait:
  assumes "loops_inv this" "w \<in> set (loopWaits this)"
  shows "loops_inv (this\<lparr>loopWaits := removeAll w (loopWaits this),
               updateLoops := (updateLoops this)(ch_ref (lw_channel w) := None)\<rparr>)"
proof -
  let ?f = "\<lambda>w. ch_ref (lw_channel w)"
  let ?g = "\<lambda>b. ch_ref (lb_channel b)"
  have dw: "distinct (map ?f (loopWaits this))" and db: "distinct (map ?g (loopBadges this))"
    and disj: "?f ` set (loopWaits this) \<inter> ?g ` set (loopBadges this) = {}"
    and dm: "dom (updateLoops this) = ?f ` set (loopWaits this) \<union> ?g ` set (loopBadges this)"
    and en: "\<forall>w \<in> set (loopWaits this). updateLoops this (?f w) = Some (lw_entry w)"
    using assms(1) by (auto simp: loops_inv_def loopRefs_def)
  have im: "?f ` set (removeAll w (loopWaits this)) = ?f ` set (loopWaits this) - {?f w}"
    by (rule image_removeAll[OF dw assms(2)])
  have nb: "?f w \<notin> ?g ` set (loopBadges this)"
    using disj assms(2) by blast
  have 1: "distinct (map ?f (removeAll w (loopWaits this)) @ map ?g (loopBadges this))"
    using distinct_map_removeAll[OF dw, of w] db disj im by auto
  have 2: "dom ((updateLoops this)(?f w := None))
            = ?f ` set (removeAll w (loopWaits this)) \<union> ?g ` set (loopBadges this)"
    using dm nb by (simp only: im dom_fun_upd) auto
  have 3: "\<forall>v \<in> set (removeAll w (loopWaits this)).
             ((updateLoops this)(?f w := None)) (?f v) = Some (lw_entry v)"
  proof
    fix v assume v: "v \<in> set (removeAll w (loopWaits this))"
    then have "?f v \<in> ?f ` set (removeAll w (loopWaits this))" by blast
    then have "?f v \<noteq> ?f w" unfolding im by blast
    moreover have "v \<in> set (loopWaits this)" using v by auto
    ultimately show "((updateLoops this)(?f w := None)) (?f v) = Some (lw_entry v)"
      using en by simp
  qed
  show ?thesis
    unfolding loops_inv_def loopRefs_def using 1 2 3 by simp
qed

lemma loops_inv_to_badge:
  assumes "loops_inv this" "w \<in> set (loopWaits this)"
  shows "loops_inv (this\<lparr>loopWaits := removeAll w (loopWaits this),
               loopBadges := loopBadges this
                 @ [\<lparr> lb_channel = lw_channel w, lb_timeout = lw_timeout w \<rparr>]\<rparr>)"
proof -
  let ?f = "\<lambda>w. ch_ref (lw_channel w)"
  let ?g = "\<lambda>b. ch_ref (lb_channel b)"
  have dw: "distinct (map ?f (loopWaits this))" and db: "distinct (map ?g (loopBadges this))"
    and disj: "?f ` set (loopWaits this) \<inter> ?g ` set (loopBadges this) = {}"
    and dm: "dom (updateLoops this) = ?f ` set (loopWaits this) \<union> ?g ` set (loopBadges this)"
    and en: "\<forall>w \<in> set (loopWaits this). updateLoops this (?f w) = Some (lw_entry w)"
    using assms(1) by (auto simp: loops_inv_def loopRefs_def)
  have im: "?f ` set (removeAll w (loopWaits this)) = ?f ` set (loopWaits this) - {?f w}"
    by (rule image_removeAll[OF dw assms(2)])
  have nb: "?f w \<notin> ?g ` set (loopBadges this)"
    using disj assms(2) by blast
  have 1: "distinct (map ?f (removeAll w (loopWaits this))
             @ map ?g (loopBadges this @ [\<lparr> lb_channel = lw_channel w, lb_timeout = lw_timeout w \<rparr>]))"
    using distinct_map_removeAll[OF dw, of w] db disj im nb by auto
  have 2: "dom (updateLoops this)
            = ?f ` set (removeAll w (loopWaits this))
              \<union> ?g ` set (loopBadges this @ [\<lparr> lb_channel = lw_channel w, lb_timeout = lw_timeout w \<rparr>])"
    using dm assms(2) by (simp only: im) auto
  have 3: "\<forall>v \<in> set (removeAll w (loopWaits this)). updateLoops this (?f v) = Some (lw_entry v)"
    using en by auto
  show ?thesis
    unfolding loops_inv_def loopRefs_def using 1 2 3 by simp
qed

lemma loops_inv_drop_badge:
  assumes "loops_inv this" "b \<in> set (loopBadges this)"
  shows "loops_inv (this\<lparr>loopBadges := removeAll b (loopBadges this),
               updateLoops := (updateLoops this)(ch_ref (lb_channel b) := None)\<rparr>)"
proof -
  let ?f = "\<lambda>w. ch_ref (lw_channel w)"
  let ?g = "\<lambda>b. ch_ref (lb_channel b)"
  have dw: "distinct (map ?f (loopWaits this))" and db: "distinct (map ?g (loopBadges this))"
    and disj: "?f ` set (loopWaits this) \<inter> ?g ` set (loopBadges this) = {}"
    and dm: "dom (updateLoops this) = ?f ` set (loopWaits this) \<union> ?g ` set (loopBadges this)"
    and en: "\<forall>w \<in> set (loopWaits this). updateLoops this (?f w) = Some (lw_entry w)"
    using assms(1) by (auto simp: loops_inv_def loopRefs_def)
  have im: "?g ` set (removeAll b (loopBadges this)) = ?g ` set (loopBadges this) - {?g b}"
    by (rule image_removeAll[OF db assms(2)])
  have nb: "?g b \<notin> ?f ` set (loopWaits this)"
    using disj assms(2) by blast
  have 1: "distinct (map ?f (loopWaits this) @ map ?g (removeAll b (loopBadges this)))"
    using distinct_map_removeAll[OF db, of b] dw disj im by auto
  have 2: "dom ((updateLoops this)(?g b := None))
            = ?f ` set (loopWaits this) \<union> ?g ` set (removeAll b (loopBadges this))"
    using dm nb by (simp only: im dom_fun_upd) auto
  have 3: "\<forall>v \<in> set (loopWaits this).
             ((updateLoops this)(?g b := None)) (?f v) = Some (lw_entry v)"
  proof
    fix v assume v: "v \<in> set (loopWaits this)"
    then have "?f v \<in> ?f ` set (loopWaits this)" by blast
    then have "?f v \<noteq> ?g b" using nb by metis
    then show "((updateLoops this)(?g b := None)) (?f v) = Some (lw_entry v)"
      using en v by simp
  qed
  show ?thesis
    unfolding loops_inv_def loopRefs_def using 1 2 3 by simp
qed

lemma loops_inv_woken:
  assumes "loops_inv this" "w \<in> set (loopWaits this)"
  shows "loops_inv (runUpdateLoop_woken this w settled)"
proof (cases settled)
  case (Fulfilled u)
  then show ?thesis
    using loops_inv_to_badge[OF assms] by (simp add: runUpdateLoop_woken_def)
next
  case (Rejected e)
  then show ?thesis
    using loops_inv_drop_wait[OF assms] by (simp add: runUpdateLoop_woken_def)
qed

lemma loops_inv_badged:
  assumes "loops_inv this" "b \<in> set (loopBadges this)"
  shows "loops_inv (runUpdateLoop_badged this b settled)"
proof (cases settled)
  case (Rejected e)
  then show ?thesis
    using loops_inv_drop_badge[OF assms] by (simp add: runUpdateLoop_badged_def)
next
  case (Fulfilled u)
  let ?this1 = "updateBadge (this\<lparr>loopBadges := removeAll b (loopBadges this)\<rparr>)"
  let ?this2 = "?this1\<lparr>updatedChannels := insert (ch_ref (lb_channel b)) (updatedChannels ?this1)\<rparr>"
  let ?this3 = "waitList_resolve ?this2 (update_topic (lb_channel b)) (Boolean True)"
  let ?this4 = "?this3\<lparr>updateLoops := (updateLoops ?this3)(ch_ref (lb_channel b) := None)\<rparr>"
  have "loops_inv ?this4"
    by (rule loops_inv_fields[OF loops_inv_drop_badge[OF assms]])
       (simp_all add: updateBadge_def waitList_resolve_def)
  then have "loops_inv (runUpdateLoop ?this4 (lb_channel b) (lb_timeout b))"
    by (rule loops_inv_runUpdateLoop)
  then show ?thesis
    using Fulfilled by (simp add: runUpdateLoop_badged_def Let_def)
qed

lemma reachable_loops_inv: "reachable this \<Longrightarrow> loops_inv this"
proof (induction rule: reachable.induct)
  case created
  show ?case by (rule loops_inv_constructor)
next
  case (start this channel timeout)
  then show ?case by (simp add: loops_inv_runUpdateLoop)
next
  case (woken this w settled)
  then show ?case by (simp add: loops_inv_woken)
next
  case (badged this b settled)
  then show ?case by (simp add: loops_inv_badged)
next
  case (other this this')
  then show ?case by (simp add: loops_inv_fields)
qed

text \<open>
  C4. In every state a Network reaches, whatever start requests were made and however
  they fell between the steps of running loops: a channel has at most one suspended
  update loop, and none unless the registry has an entry for it; an outstanding external
  wait is the one stored in the registry; and a start request for a channel that has a
  registry entry changes nothing, so it issues no second wait.
\<close>

theorem one_loop_per_channel:
  assumes "reachable this"
  shows "(\<forall>c. length (filter (\<lambda>w. ch_ref (lw_channel w) = c) (loopWaits this))
               + length (filter (\<lambda>b. ch_ref (lb_channel b) = c) (loopBadges this))
             \<le> (if updateLoops this c = None then 0 else 1))
       \<and> (\<forall>w \<in> set (loopWaits this). updateLoops this (ch_ref (lw_channel w)) = Some (lw_entry w))
       \<and> (\<forall>channel timeout. updateLoops this (ch_ref channel) \<noteq> None
            \<longrightarrow> runUpdateLoop this channel timeout = this)"
proof -
  let ?f = "\<lambda>w. ch_ref (lw_channel w)"
  let ?g = "\<lambda>b. ch_ref (lb_channel b)"
  have inv: "loops_inv this"
    using assms by (rule reachable_loops_inv)
  then have dw: "distinct (map ?f (loopWaits this))" and db: "distinct (map ?g (loopBadges this))"
    and disj: "?f ` set (loopWaits this) \<inter> ?g ` set (loopBadges this) = {}"
    and dm: "dom (updateLoops this) = ?f ` set (loopWaits this) \<union> ?g ` set (loopBadges this)"
    and en: "\<forall>w \<in> set (loopWaits this). updateLoops this (?f w) = Some (lw_entry w)"
    by (auto simp: loops_inv_def loopRefs_def)
  have 1: "length (filter (\<lambda>w. ?f w = c) (loopWaits this))
               + length (filter (\<lambda>b. ?g b = c) (loopBadges this))
             \<le> (if updateLoops this c = None then 0 else 1)" for c
  proof -
    have a: "length (filter (\<lambda>w. ?f w = c) (loopWaits this)) \<le> 1"
      by (rule filter_distinct_le_one[OF dw])
    have b: "length (filter (\<lambda>b. ?g b = c) (loopBadges this)) \<le> 1"
      by (rule filter_distinct_le_one[OF db])
    have c1: "c \<notin> ?f ` set (loopWaits this) \<Longrightarrow> filter (\<lambda>w. ?f w = c) (loopWaits this) = []"
      by (auto simp: filter_empty_conv)
    have c2: "c \<notin> ?g ` set (loopBadges this) \<Longrightarrow> filter (\<lambda>b. ?g b = c) (loopBadges this) = []"
      by (auto simp: filter_empty_conv)
    show ?thesis
    proof (cases "updateLoops this c")
      case None
      then have "c \<notin> dom (updateLoops this)" by auto
      then show ?thesis using dm c1 c2 None by auto
    next
      case (Some e)
      have "c \<notin> ?f ` set (loopWaits this) \<or> c \<notin> ?g ` set (loopBadges this)"
        using disj by blast
      then show ?thesis using a b c1 c2 Some by auto
    qed
  qed
  have 3: "\<forall>channel timeout. updateLoops this (ch_ref channel) \<noteq> None
            \<longrightarrow> runUpdateLoop this channel timeout = this"
    by (simp add: runUpdateLoop_def)
  show ?thesis using 1 en 3 by blast
qed

theorem one_loop_per_channel_witness:
  "reachable looping
   \<and> loopWaits looping = [\<lparr> lw_channel = chanA, lw_timeout = None, lw_entry = 2 \<rparr>]
   \<and> updateLoops looping 0 = Some 2
   \<and> length (filter (\<lambda>w. ch_ref (lw_channel w) = 0) (loopWaits looping))
       + length (filter (\<lambda>b. ch_ref (lb_channel b) = 0) (loopBadges looping)) \<le> 1
   \<and> runUpdateLoop looping chanA None = looping"
proof -
  have eq: "looping = loaded\<lparr>loopWaits := [\<lparr> lw_channel = chanA, lw_timeout = None, lw_entry = 2 \<rparr>],
                           updateLoops := [0 \<mapsto> 2], nextId := 3\<rparr>"
    by (simp add: looping_def runUpdateLoop_def loaded_def chanA_def constructor_def)
  have r0: "reachable loaded"
    by (rule reachable.other[OF reachable.created]) (simp_all add: loaded_def)
  have r: "reachable looping"
    unfolding looping_def by (rule reachable.start[OF r0])
  have w: "loopWaits looping = [\<lparr> lw_channel = chanA, lw_timeout = None, lw_entry = 2 \<rparr>]"
    by (simp add: eq)
  have u: "updateLoops looping 0 = Some 2"
    by (simp add: eq)
  have c: "ch_ref chanA = 0"
    by (simp add: chanA_def)
  note t = one_loop_per_channel[OF r]
  have 1: "length (filter (\<lambda>w. ch_ref (lw_channel w) = 0) (loopWaits looping))
       + length (filter (\<lambda>b. ch_ref (lb_channel b) = 0) (loopBadges looping)) \<le> 1"
    using conjunct1[OF t, THEN spec, of 0] u by simp
  have 2: "runUpdateLoop looping chanA None = looping"
    using conjunct2[OF conjunct2[OF t], THEN spec, of chanA, THEN spec, of None] u c by simp
  show ?thesis
    using r w u 1 2 by blast
qed

subsection \<open>waitForIncomingMessage\<close>

lemma map_of_same_value:
  "map_of (map (\<lambda>w. (w_id w, c)) ws) k = (if k \<in> w_id ` set ws then Some c else None)"
  by (induction ws) auto

lemma map_of_fresh_append:
  "k \<notin> fst ` set xs \<Longrightarrow> map_of (xs @ ys) k = map_of ys k"
  by (simp add: map_add_def map_of_eq_None_iff[THEN iffD2])

lemma find_append_None:
  "find P xs = None \<Longrightarrow> find P (xs @ ys) = find P ys"
  by (induction xs) (auto split: if_splits)

lemma resolved_value:
  assumes "k \<notin> fst ` set xs" and "k \<in> w_id ` set ws"
  shows "map_of (xs @ map (\<lambda>w. (w_id w, c)) ws) k = Some c"
proof -
  have "map_of (xs @ map (\<lambda>w. (w_id w, c)) ws) k = map_of (map (\<lambda>w. (w_id w, c)) ws) k"
    using assms(1) by (rule map_of_fresh_append)
  also have "\<dots> = Some c"
    using assms(2) by (simp only: map_of_same_value if_True)
  finally show ?thesis .
qed

lemma delivered_badged:
  "delivered (runUpdateLoop_badged this b (Fulfilled u))
     = delivered this
       @ map (\<lambda>w. (w_id w, Fulfilled (Boolean True)))
           (filter (\<lambda>w. w_topic w = update_topic (lb_channel b)) (waitList this))"
  by (simp add: runUpdateLoop_badged_def runUpdateLoop_def Let_def updateBadge_def
      waitList_resolve_def)

lemma delivered_removeIdentityPair:
  "channelById this channelId = Some channel \<Longrightarrow>
   delivered (snd (removeIdentityPair this channelId identityKey))
     = delivered this
       @ map (\<lambda>w. (w_id w, Fulfilled (Boolean False)))
           (filter (\<lambda>w. w_topic w = update_topic channel) (waitList this))"
  by (simp add: removeIdentityPair_def Let_def removeChannel_def removeIdentity_def
      updateBadge_def waitList_resolve_def cancel_def split: option.splits pstate.splits)

lemma delivered_loop_ended:
  "delivered (runUpdateLoop_woken this w (Rejected e)) = delivered this"
  "delivered (runUpdateLoop_badged this b (Rejected e)) = delivered this"
  by (simp_all add: runUpdateLoop_woken_def runUpdateLoop_badged_def)

lemma looping_eq:
  "looping = loaded\<lparr>loopWaits := [\<lparr> lw_channel = chanA, lw_timeout = None, lw_entry = 2 \<rparr>],
                    updateLoops := [0 \<mapsto> 2], nextId := 3\<rparr>"
  by (simp add: looping_def runUpdateLoop_def loaded_def chanA_def constructor_def)



text \<open>
  C3, as the code has it. For a channel found under the payload's id, that id being the
  lower-case hex the serializer writes, and the next waiter id being unused: with the
  dirty flag set, the call returns \<open>true\<close> at once and clears the flag, registering
  nothing; with the flag not set, it registers a waiter on the channel's update topic with
  the caller's timeout and suspends. The suspended call returns \<open>true\<close> (and clears the
  flag) when an update loop of the channel broadcasts, returns \<open>false\<close> when
  \<open>removeIdentityPair\<close> broadcasts for the channel, and throws the Timeout error when
  the timeout elapses first. When an update loop has ended on an error, the waiter has been
  handed nothing and the call is still suspended. In any state, the call returns the value
  its waiter was handed, throws the error its waiter failed with, and is suspended while
  its waiter was handed nothing.
\<close>

theorem waitForIncomingMessage_flag_or_wait:
  assumes found: "channelById this channelId = Some channel"
    and canon: "channelId = toHex (ch_id channel)"
    and fresh: "nextId this \<notin> fst ` set (delivered this)"
               "nextId this \<notin> w_id ` set (waitList this)"
  shows "(ch_ref channel \<in> updatedChannels this \<longrightarrow>
            waitForIncomingMessage this channelId timeout
              = (Return (Boolean True),
                 this\<lparr>updatedChannels := updatedChannels this - {ch_ref channel}\<rparr>))
       \<and> (ch_ref channel \<notin> updatedChannels this \<longrightarrow>
            waitForIncomingMessage this channelId timeout
              = (Await (nextId this),
                 this\<lparr>waitList := waitList this
                          @ [\<lparr> w_id = nextId this, w_topic = update_topic channel,
                               w_timeout = timeout \<rparr>],
                      nextId := Suc (nextId this)\<rparr>)
          \<and> (\<forall>b. ch_id (lb_channel b) = ch_id channel \<longrightarrow>
                waitForIncomingMessage_resume
                  (runUpdateLoop_badged (snd (waitForIncomingMessage this channelId timeout)) b
                     (Fulfilled ()))
                  channel (nextId this)
                = (Return (Boolean True),
                   (runUpdateLoop_badged (snd (waitForIncomingMessage this channelId timeout)) b
                      (Fulfilled ()))
                   \<lparr>updatedChannels :=
                      updatedChannels
                        (runUpdateLoop_badged (snd (waitForIncomingMessage this channelId timeout))
                           b (Fulfilled ()))
                      - {ch_ref channel}\<rparr>))
          \<and> (\<forall>identityKey.
                fst (waitForIncomingMessage_resume
                       (snd (removeIdentityPair (snd (waitForIncomingMessage this channelId timeout))
                               channelId identityKey))
                       channel (nextId this))
                = Return (Boolean False))
          \<and> (timeout \<noteq> None \<longrightarrow>
                fst (waitForIncomingMessage_resume
                       (waitList_timeout (snd (waitForIncomingMessage this channelId timeout))
                          (nextId this))
                       channel (nextId this))
                = Throw Timeout)
          \<and> (\<forall>w e.
                fst (waitForIncomingMessage_resume
                       (runUpdateLoop_woken (snd (waitForIncomingMessage this channelId timeout)) w
                          (Rejected e))
                       channel (nextId this))
                = Await (nextId this))
          \<and> (\<forall>b e.
                fst (waitForIncomingMessage_resume
                       (runUpdateLoop_badged (snd (waitForIncomingMessage this channelId timeout)) b
                          (Rejected e))
                       channel (nextId this))
                = Await (nextId this)))
       \<and> (\<forall>that entry isAlive. map_of (delivered that) entry = Some (Fulfilled isAlive) \<longrightarrow>
            waitForIncomingMessage_resume that channel entry
              = (Return isAlive,
                 that\<lparr>updatedChannels := updatedChannels that - {ch_ref channel}\<rparr>))
       \<and> (\<forall>that entry e. map_of (delivered that) entry = Some (Rejected e) \<longrightarrow>
            waitForIncomingMessage_resume that channel entry = (Throw e, that))
       \<and> (\<forall>that entry. map_of (delivered that) entry = None \<longrightarrow>
            waitForIncomingMessage_resume that channel entry = (Await entry, that))"
proof -
  let ?new = "\<lparr> w_id = nextId this, w_topic = update_topic channel, w_timeout = timeout \<rparr>"
  let ?reg = "this\<lparr>waitList := waitList this @ [?new], nextId := Suc (nextId this)\<rparr>"
  have topic: "update_topic channel = ''update:'' @ channelId"
    by (simp add: update_topic_def canon)
  have dirty: "waitForIncomingMessage this channelId timeout
              = (Return (Boolean True),
                 this\<lparr>updatedChannels := updatedChannels this - {ch_ref channel}\<rparr>)"
    if "ch_ref channel \<in> updatedChannels this"
    using that found by (simp add: waitForIncomingMessage_def)
  have none: "map_of (delivered this) (nextId this) = None"
    using fresh(1) by (simp add: map_of_eq_None_iff)
  have wait: "waitForIncomingMessage this channelId timeout = (Await (nextId this), ?reg)"
    if "ch_ref channel \<notin> updatedChannels this"
    using that found by (simp add: waitForIncomingMessage_def waitList_waitFor_def topic)
  have foundr: "channelById ?reg channelId = Some channel"
    using found by (simp add: channelById_def)
  have a: "waitForIncomingMessage_resume (runUpdateLoop_badged ?reg b (Fulfilled ())) channel
             (nextId this)
           = (Return (Boolean True),
              (runUpdateLoop_badged ?reg b (Fulfilled ()))
              \<lparr>updatedChannels := updatedChannels (runUpdateLoop_badged ?reg b (Fulfilled ()))
                                    - {ch_ref channel}\<rparr>)"
    if "ch_id (lb_channel b) = ch_id channel" for b
  proof -
    have tb: "update_topic (lb_channel b) = update_topic channel"
      using that by (simp add: update_topic_def)
    have "map_of (delivered (runUpdateLoop_badged ?reg b (Fulfilled ()))) (nextId this)
            = Some (Fulfilled (Boolean True))"
      unfolding delivered_badged
    proof (rule resolved_value)
      show "nextId this \<notin> fst ` set (delivered ?reg)"
        using fresh(1) by simp
      show "nextId this \<in> w_id ` set (filter (\<lambda>w. w_topic w = update_topic (lb_channel b))
                                       (waitList ?reg))"
        by (simp add: image_iff tb)
    qed
    then show ?thesis
      by (simp add: waitForIncomingMessage_resume_def)
  qed
  have b: "fst (waitForIncomingMessage_resume
                  (snd (removeIdentityPair ?reg channelId identityKey)) channel (nextId this))
           = Return (Boolean False)" for identityKey
  proof -
    have "map_of (delivered (snd (removeIdentityPair ?reg channelId identityKey))) (nextId this)
            = Some (Fulfilled (Boolean False))"
      unfolding delivered_removeIdentityPair[OF foundr]
    proof (rule resolved_value)
      show "nextId this \<notin> fst ` set (delivered ?reg)"
        using fresh(1) by simp
      show "nextId this \<in> w_id ` set (filter (\<lambda>w. w_topic w = update_topic channel)
                                       (waitList ?reg))"
        by (simp add: image_iff)
    qed
    then show ?thesis
      by (simp add: waitForIncomingMessage_resume_def)
  qed
  have c: "fst (waitForIncomingMessage_resume (waitList_timeout ?reg (nextId this)) channel
                  (nextId this)) = Throw Timeout"
    if "timeout \<noteq> None"
  proof -
    have nf: "find (\<lambda>w. w_id w = nextId this \<and> w_timeout w \<noteq> None) (waitList this) = None"
      using fresh(2) by (metis (mono_tags, lifting) find_None_iff image_eqI)
    have w: "waitList ?reg = waitList this @ [?new]"
      by simp
    have "find (\<lambda>w. w_id w = nextId this \<and> w_timeout w \<noteq> None) (waitList ?reg)
            = find (\<lambda>w. w_id w = nextId this \<and> w_timeout w \<noteq> None) [?new]"
      unfolding w by (rule find_append_None[OF nf])
    also have "\<dots> = Some ?new"
      using that by simp
    finally have "delivered (waitList_timeout ?reg (nextId this))
                 = delivered ?reg @ [(nextId this, Rejected Timeout)]"
      by (simp add: waitList_timeout_def)
    then have "delivered (waitList_timeout ?reg (nextId this))
                 = delivered this @ [(nextId this, Rejected Timeout)]"
      by (simp add: waitList_timeout_def)
    then have "map_of (delivered (waitList_timeout ?reg (nextId this))) (nextId this)
                 = Some (Rejected Timeout)"
      by (simp only: map_of_fresh_append[OF fresh(1)]) simp
    then show ?thesis
      by (simp add: waitForIncomingMessage_resume_def)
  qed
  have d: "fst (waitForIncomingMessage_resume (runUpdateLoop_woken ?reg w (Rejected e)) channel
                  (nextId this)) = Await (nextId this)" for w e
    using none by (simp add: waitForIncomingMessage_resume_def delivered_loop_ended)
  have e: "fst (waitForIncomingMessage_resume (runUpdateLoop_badged ?reg b (Rejected e)) channel
                  (nextId this)) = Await (nextId this)" for b e
    using none by (simp add: waitForIncomingMessage_resume_def delivered_loop_ended)
  have r: "(\<forall>that entry isAlive. map_of (delivered that) entry = Some (Fulfilled isAlive) \<longrightarrow>
            waitForIncomingMessage_resume that channel entry
              = (Return isAlive,
                 that\<lparr>updatedChannels := updatedChannels that - {ch_ref channel}\<rparr>))
       \<and> (\<forall>that entry e. map_of (delivered that) entry = Some (Rejected e) \<longrightarrow>
            waitForIncomingMessage_resume that channel entry = (Throw e, that))
       \<and> (\<forall>that entry. map_of (delivered that) entry = None \<longrightarrow>
            waitForIncomingMessage_resume that channel entry = (Await entry, that))"
    by (simp add: waitForIncomingMessage_resume_def)
  have main: "(ch_ref channel \<in> updatedChannels this \<longrightarrow>
            waitForIncomingMessage this channelId timeout
              = (Return (Boolean True),
                 this\<lparr>updatedChannels := updatedChannels this - {ch_ref channel}\<rparr>))
       \<and> (ch_ref channel \<notin> updatedChannels this \<longrightarrow>
            waitForIncomingMessage this channelId timeout
              = (Await (nextId this),
                 this\<lparr>waitList := waitList this
                          @ [\<lparr> w_id = nextId this, w_topic = update_topic channel,
                               w_timeout = timeout \<rparr>],
                      nextId := Suc (nextId this)\<rparr>)
          \<and> (\<forall>b. ch_id (lb_channel b) = ch_id channel \<longrightarrow>
                waitForIncomingMessage_resume
                  (runUpdateLoop_badged (snd (waitForIncomingMessage this channelId timeout)) b
                     (Fulfilled ()))
                  channel (nextId this)
                = (Return (Boolean True),
                   (runUpdateLoop_badged (snd (waitForIncomingMessage this channelId timeout)) b
                      (Fulfilled ()))
                   \<lparr>updatedChannels :=
                      updatedChannels
                        (runUpdateLoop_badged (snd (waitForIncomingMessage this channelId timeout))
                           b (Fulfilled ()))
                      - {ch_ref channel}\<rparr>))
          \<and> (\<forall>identityKey.
                fst (waitForIncomingMessage_resume
                       (snd (removeIdentityPair (snd (waitForIncomingMessage this channelId timeout))
                               channelId identityKey))
                       channel (nextId this))
                = Return (Boolean False))
          \<and> (timeout \<noteq> None \<longrightarrow>
                fst (waitForIncomingMessage_resume
                       (waitList_timeout (snd (waitForIncomingMessage this channelId timeout))
                          (nextId this))
                       channel (nextId this))
                = Throw Timeout)
          \<and> (\<forall>w e.
                fst (waitForIncomingMessage_resume
                       (runUpdateLoop_woken (snd (waitForIncomingMessage this channelId timeout)) w
                          (Rejected e))
                       channel (nextId this))
                = Await (nextId this))
          \<and> (\<forall>b e.
                fst (waitForIncomingMessage_resume
                       (runUpdateLoop_badged (snd (waitForIncomingMessage this channelId timeout)) b
                          (Rejected e))
                       channel (nextId this))
                = Await (nextId this)))"
  proof (cases "ch_ref channel \<in> updatedChannels this")
    case True
    then show ?thesis using dirty by simp
  next
    case False
    have s: "snd (waitForIncomingMessage this channelId timeout) = ?reg"
      using wait[OF False] by simp
    show ?thesis
      unfolding s using False wait[OF False] a b c d e by simp
  qed
  show ?thesis
    by (rule conjI[OF conjunct1[OF main] conjI[OF conjunct2[OF main] r]])
qed


theorem waitForIncomingMessage_flag_or_wait_witness:
  "channelById looping ''aa'' = Some chanA
   \<and> ''aa'' = toHex (ch_id chanA)
   \<and> nextId looping \<notin> fst ` set (delivered looping)
   \<and> nextId looping \<notin> w_id ` set (waitList looping)
   \<and> ch_ref chanA \<notin> updatedChannels looping
   \<and> fst (waitForIncomingMessage looping ''aa'' (Some 1000)) = Await 3
   \<and> fst (waitForIncomingMessage_resume
            (runUpdateLoop_badged (snd (waitForIncomingMessage looping ''aa'' (Some 1000)))
               \<lparr> lb_channel = chanA\<lparr>ch_name := ''renamed''\<rparr>, lb_timeout = None \<rparr>
               (Fulfilled ()))
            chanA 3) = Return (Boolean True)
   \<and> fst (waitForIncomingMessage_resume
            (snd (removeIdentityPair (snd (waitForIncomingMessage looping ''aa'' (Some 1000)))
                    ''aa'' ''bb''))
            chanA 3) = Return (Boolean False)
   \<and> fst (waitForIncomingMessage_resume
            (waitList_timeout (snd (waitForIncomingMessage looping ''aa'' (Some 1000))) 3)
            chanA 3) = Throw Timeout
   \<and> channelById (looping\<lparr>updatedChannels := {0}\<rparr>) ''aa'' = Some chanA
   \<and> ch_ref chanA \<in> updatedChannels (looping\<lparr>updatedChannels := {0}\<rparr>)
   \<and> waitForIncomingMessage (looping\<lparr>updatedChannels := {0}\<rparr>) ''aa'' (Some 1000)
       = (Return (Boolean True), looping\<lparr>updatedChannels := {}\<rparr>)"
proof -
  let ?dirty = "looping\<lparr>updatedChannels := {0}\<rparr>"
  have a: "channelById looping ''aa'' = Some chanA"
    by (simp add: looping_eq channelById_def hexval_def loaded_def chanA_def constructor_def)
  have a': "channelById ?dirty ''aa'' = Some chanA"
    by (simp add: looping_eq channelById_def hexval_def loaded_def chanA_def constructor_def)
  have b: "''aa'' = toHex (ch_id chanA)"
    by (simp add: toHex_def hexdigit_def chanA_def)
  have c: "nextId looping \<notin> fst ` set (delivered looping)"
    by (simp add: looping_eq loaded_def constructor_def)
  have c': "nextId ?dirty \<notin> fst ` set (delivered ?dirty)"
    by (simp add: looping_eq loaded_def constructor_def)
  have d: "nextId looping \<notin> w_id ` set (waitList looping)"
    by (simp add: looping_eq loaded_def constructor_def)
  have d': "nextId ?dirty \<notin> w_id ` set (waitList ?dirty)"
    by (simp add: looping_eq loaded_def constructor_def)
  have e: "ch_ref chanA \<notin> updatedChannels looping"
    by (simp add: looping_eq loaded_def constructor_def)
  have e': "ch_ref chanA \<in> updatedChannels ?dirty"
    by (simp add: chanA_def)
  have n: "nextId looping = 3"
    by (simp add: looping_eq)
  have r: "ch_ref chanA = 0"
    by (simp add: chanA_def)
  note t = waitForIncomingMessage_flag_or_wait[OF a b c d, of "Some 1000"]
  note t' = waitForIncomingMessage_flag_or_wait[OF a' b c' d', of "Some 1000"]
  note inner = conjunct1[OF conjunct2[OF t], THEN mp, OF e]
  note i1 = conjunct1[OF inner]
  note i2 = conjunct1[OF conjunct2[OF inner]]
  note i3 = conjunct1[OF conjunct2[OF conjunct2[OF inner]]]
  note i4 = conjunct1[OF conjunct2[OF conjunct2[OF conjunct2[OF inner]]]]
  have 1: "fst (waitForIncomingMessage looping ''aa'' (Some 1000)) = Await 3"
    using i1 n by simp
  have 2: "fst (waitForIncomingMessage_resume
            (runUpdateLoop_badged (snd (waitForIncomingMessage looping ''aa'' (Some 1000)))
               \<lparr> lb_channel = chanA\<lparr>ch_name := ''renamed''\<rparr>, lb_timeout = None \<rparr>
               (Fulfilled ()))
            chanA 3) = Return (Boolean True)"
    using i2[THEN spec, of "\<lparr> lb_channel = chanA\<lparr>ch_name := ''renamed''\<rparr>, lb_timeout = None \<rparr>"] n
    by simp
  have 3: "fst (waitForIncomingMessage_resume
            (snd (removeIdentityPair (snd (waitForIncomingMessage looping ''aa'' (Some 1000)))
                    ''aa'' ''bb''))
            chanA 3) = Return (Boolean False)"
    using i3[THEN spec, of "''bb''"] n by simp
  have 4: "fst (waitForIncomingMessage_resume
            (waitList_timeout (snd (waitForIncomingMessage looping ''aa'' (Some 1000))) 3)
            chanA 3) = Throw Timeout"
    using i4 n by simp
  have 5: "waitForIncomingMessage ?dirty ''aa'' (Some 1000)
       = (Return (Boolean True), looping\<lparr>updatedChannels := {}\<rparr>)"
    using conjunct1[OF t', THEN mp, OF e'] r by simp
  show ?thesis
    using a b c d e 1 2 3 4 a' e' 5 by blast
qed

text \<open>
  C3 as stated fails: the update loop of \<open>general\<close> ends on an error while a caller
  waits with a timeout; the registry entry is gone, no loop is left, and the caller has
  not been answered \<open>false\<close>: it is still suspended.
\<close>

theorem waitForIncomingMessage_loop_ended_still_waiting:
  "fst (waitForIncomingMessage looping ''aa'' (Some 1000)) = Await 3
   \<and> loopWaits looping = [\<lparr> lw_channel = chanA, lw_timeout = None, lw_entry = 2 \<rparr>]
   \<and> updateLoops
        (runUpdateLoop_woken (snd (waitForIncomingMessage looping ''aa'' (Some 1000)))
           \<lparr> lw_channel = chanA, lw_timeout = None, lw_entry = 2 \<rparr>
           (Rejected (Error ''Channel removed''))) 0 = None
   \<and> loopWaits
        (runUpdateLoop_woken (snd (waitForIncomingMessage looping ''aa'' (Some 1000)))
           \<lparr> lw_channel = chanA, lw_timeout = None, lw_entry = 2 \<rparr>
           (Rejected (Error ''Channel removed''))) = []
   \<and> fst (waitForIncomingMessage_resume
            (runUpdateLoop_woken (snd (waitForIncomingMessage looping ''aa'' (Some 1000)))
               \<lparr> lw_channel = chanA, lw_timeout = None, lw_entry = 2 \<rparr>
               (Rejected (Error ''Channel removed'')))
            chanA 3) = Await 3"
  by (simp add: looping_eq waitForIncomingMessage_def channelById_def hexval_def
      waitList_waitFor_def runUpdateLoop_woken_def waitForIncomingMessage_resume_def
      loaded_def chanA_def constructor_def)

subsection \<open>waitForInvite\<close>

lemma findChannelName_free_or_same_key:
  "getChannel this (findChannelName this invite channelName counter) = None
   \<or> (\<exists>existing. getChannel this (findChannelName this invite channelName counter) = Some existing
         \<and> ch_id existing = inv_channelPubKey invite)"
proof (induction this invite channelName counter rule: findChannelName.induct)
  case (1 this invite channelName counter)
  show ?case
  proof (cases "getChannel this channelName")
    case None
    then show ?thesis by (simp add: findChannelName.simps[of this invite channelName])
  next
    case (Some existing)
    show ?thesis
    proof (cases "ch_id existing = inv_channelPubKey invite")
      case True
      then show ?thesis using Some by (simp add: findChannelName.simps[of this invite channelName])
    next
      case False
      then show ?thesis
        using Some 1[OF Some False] by (simp add: findChannelName.simps[of this invite channelName])
    qed
  qed
qed

text \<open>
  C6. The loop leaves with the candidate name when no channel has it, and when the channel
  that has it is under the invite's channel key; when that channel is under another key
  it goes on with the invite's name and the next numeric suffix. So the name it ends with
  is free or belongs to a channel under the invite's key, and an accepted invite is
  answered with a channel of that key and that name: created when the name was free, the
  existing one otherwise.
\<close>

theorem findChannelName_probes:
  "(getChannel this channelName = None
      \<longrightarrow> findChannelName this invite channelName counter = channelName)
   \<and> (\<forall>existing. getChannel this channelName = Some existing
          \<and> ch_id existing = inv_channelPubKey invite
      \<longrightarrow> findChannelName this invite channelName counter = channelName)
   \<and> (\<forall>existing. getChannel this channelName = Some existing
          \<and> ch_id existing \<noteq> inv_channelPubKey invite
      \<longrightarrow> findChannelName this invite channelName counter
            = findChannelName this invite
                (inv_channelName invite @ ''-'' @ toString (Suc counter)) (Suc counter))
   \<and> (getChannel this (findChannelName this invite channelName counter) = None
      \<or> (\<exists>existing. getChannel this (findChannelName this invite channelName counter)
                       = Some existing
            \<and> ch_id existing = inv_channelPubKey invite))
   \<and> (\<forall>encryptedInvite.
        swarmWaits this waiter = Some (Settled (Fulfilled encryptedInvite))
        \<and> decrypt ext (pi_requestId (inviteEntries this entry)) encryptedInvite = Inr invite
      \<longrightarrow> (\<exists>channel. fst (waitForInvite_resume ext this identityKey identity entry waiter)
                        = Return (Accepted channel)
             \<and> ch_id channel = inv_channelPubKey invite
             \<and> ch_name channel = findChannelName this invite (inv_channelName invite) 0))"
proof -
  have eq: "findChannelName (this\<lparr>inviteEntries := ie\<rparr>) invite n c = findChannelName this invite n c"
    for ie n c
  proof (induction this invite n c rule: findChannelName.induct)
    case (1 this invite channelName counter)
    have g: "getChannel (this\<lparr>inviteEntries := ie\<rparr>) x = getChannel this x" for x
      by (simp add: getChannel_def)
    show ?case
      using 1
      by (simp add: findChannelName.simps[of this invite channelName]
          findChannelName.simps[of "this\<lparr>inviteEntries := ie\<rparr>" invite channelName] g
          split: option.splits)
  qed
  have g: "getChannel (this\<lparr>inviteEntries := ie\<rparr>) x = getChannel this x" for x ie
    by (simp add: getChannel_def)
  have nm: "getChannel this x = Some c \<Longrightarrow> ch_name c = x" for x c
    by (auto simp: getChannel_def find_Some_iff)
  have step: "findChannelName this invite channelName counter =
     (case getChannel this channelName of
        None \<Rightarrow> channelName
      | Some existing \<Rightarrow>
          if ch_id existing = inv_channelPubKey invite then channelName
          else findChannelName this invite
                 (inv_channelName invite @ ''-'' @ toString (Suc counter)) (Suc counter))"
    by (rule findChannelName.simps)
  have accept: "\<exists>channel. fst (waitForInvite_resume ext this identityKey identity entry waiter)
                        = Return (Accepted channel)
             \<and> ch_id channel = inv_channelPubKey invite
             \<and> ch_name channel = findChannelName this invite (inv_channelName invite) 0"
    if "swarmWaits this waiter = Some (Settled (Fulfilled encryptedInvite))"
      and "decrypt ext (pi_requestId (inviteEntries this entry)) encryptedInvite = Inr invite"
    for encryptedInvite
    using that findChannelName_free_or_same_key[of this invite "inv_channelName invite" 0]
    by (auto simp: waitForInvite_resume_def Let_def channelFromInvite_def eq g nm
        split: prod.splits)
  show ?thesis
    using findChannelName_free_or_same_key[of this invite channelName counter] accept
    by (auto simp: step)
qed

lemma toString_1: "toString (Suc 0) = ''1''"
  by (simp add: toString.simps hexdigit_def)

theorem findChannelName_probes_witness:
  "getChannel acceptedB ''general'' = Some chanA
   \<and> getChannel acceptedB ''general-1'' = None
   \<and> findChannelName acceptedB \<lparr> inv_channelName = ''general'', inv_channelPubKey = [204] \<rparr> ''general'' 0
       = ''general-1''
   \<and> findChannelName acceptedA \<lparr> inv_channelName = ''general'', inv_channelPubKey = [170] \<rparr> ''general'' 0
       = ''general''
   \<and> (\<exists>channel. fst (waitForInvite_resume stubs acceptedB ''bb'' alice 5 9) = Return (Accepted channel)
         \<and> ch_id channel = [204] \<and> ch_name channel = ''general-1'')
   \<and> (\<exists>channel. fst (waitForInvite_resume stubs acceptedA ''bb'' alice 5 9) = Return (Accepted channel)
         \<and> ch_id channel = [170] \<and> ch_name channel = ''general'')"
proof -
  let ?invB = "\<lparr> inv_channelName = ''general'', inv_channelPubKey = [204] \<rparr>"
  let ?invA = "\<lparr> inv_channelName = ''general'', inv_channelPubKey = [170] \<rparr>"
  have a: "getChannel acceptedB ''general'' = Some chanA"
    by (simp add: getChannel_def acceptedB_def invited_def loaded_def chanA_def constructor_def)
  have a': "getChannel acceptedA ''general'' = Some chanA"
    by (simp add: getChannel_def acceptedA_def invited_def loaded_def chanA_def constructor_def)
  have b: "getChannel acceptedB ''general-1'' = None"
    by (simp add: getChannel_def acceptedB_def invited_def loaded_def chanA_def constructor_def)
  have k: "ch_id chanA \<noteq> inv_channelPubKey ?invB" "ch_id chanA = inv_channelPubKey ?invA"
    by (simp_all add: chanA_def)
  have s: "swarmWaits acceptedB 9 = Some (Settled (Fulfilled \<lparr> ei_requestId = [1], ei_box = [204] \<rparr>))"
    by (simp add: acceptedB_def)
  have d: "decrypt stubs (pi_requestId (inviteEntries acceptedB 5)) \<lparr> ei_requestId = [1], ei_box = [204] \<rparr>
             = Inr ?invB"
    by (simp add: stubs_def)
  have s': "swarmWaits acceptedA 9 = Some (Settled (Fulfilled \<lparr> ei_requestId = [1], ei_box = [170] \<rparr>))"
    by (simp add: acceptedA_def)
  have d': "decrypt stubs (pi_requestId (inviteEntries acceptedA 5)) \<lparr> ei_requestId = [1], ei_box = [170] \<rparr>
             = Inr ?invA"
    by (simp add: stubs_def)
  have 1: "findChannelName acceptedB ?invB ''general'' 0 = ''general-1''"
    using a b k findChannelName_probes[of acceptedB "''general''" ?invB 0]
      findChannelName_probes[of acceptedB "''general-1''" ?invB 1]
    by (simp add: toString_1)
  have 2: "findChannelName acceptedA ?invA ''general'' 0 = ''general''"
    using a' k findChannelName_probes[of acceptedA "''general''" ?invA 0]
    by simp
  have 3: "\<exists>channel. fst (waitForInvite_resume stubs acceptedB ''bb'' alice 5 9) = Return (Accepted channel)
         \<and> ch_id channel = [204] \<and> ch_name channel = ''general-1''"
    using s d 1 findChannelName_probes[of acceptedB "''general''" ?invB 0 9 stubs 5 "''bb''" alice]
    by simp
  have 4: "\<exists>channel. fst (waitForInvite_resume stubs acceptedA ''bb'' alice 5 9) = Return (Accepted channel)
         \<and> ch_id channel = [170] \<and> ch_name channel = ''general''"
    using s' d' 2 findChannelName_probes[of acceptedA "''general''" ?invA 0 9 stubs 5 "''bb''" alice]
    by simp
  show ?thesis using a b 1 2 3 4 by simp
qed

lemma invited_alice: "identityByKey invited ''bb'' = Some alice"
  by (simp add: identityByKey_def hexval_def invited_def loaded_def alice_def constructor_def)

lemma waitForInvite_invited:
  "waitForInvite invited ''bb'' =
     (Await 10,
      invited\<lparr>swarmWaits := [9 \<mapsto> Settled (Rejected Cancelled), 10 \<mapsto> Pending],
              nextId := 11,
              inviteEntries := (inviteEntries invited)
                (5 := \<lparr> pi_requestId = [1], pi_encoded = ''req'', pi_waiter = Some 10 \<rparr>)\<rparr>)"
  by (simp add: waitForInvite_def identityByKey_def hexval_def cancel_def
      swarm_waitForInvite_def Let_def invited_def loaded_def alice_def constructor_def)

lemma firstAnswered_eq:
  "waitForInvite_resume stubs preempted ''bb'' alice 5 9 =
     (Return NotAccepted,
      invited\<lparr>swarmWaits := [9 \<mapsto> Settled (Rejected Cancelled), 10 \<mapsto> Pending],
              nextId := 11,
              inviteEntries := (inviteEntries invited)
                (5 := \<lparr> pi_requestId = [1], pi_encoded = ''req'', pi_waiter = None \<rparr>)\<rparr>)"
  by (simp add: preempted_def waitForInvite_invited waitForInvite_resume_def Let_def)

lemma thirdCall_eq:
  "waitForInvite firstAnswered ''bb'' =
     (Await 11,
      invited\<lparr>swarmWaits := [9 \<mapsto> Settled (Rejected Cancelled), 10 \<mapsto> Pending, 11 \<mapsto> Pending],
              nextId := 12,
              inviteEntries := (inviteEntries invited)
                (5 := \<lparr> pi_requestId = [1], pi_encoded = ''req'', pi_waiter = Some 11 \<rparr>)\<rparr>)"
proof -
  have a: "identityByKey firstAnswered ''bb'' = Some alice"
    using invited_alice by (simp add: firstAnswered_def firstAnswered_eq identityByKey_def)
  have b: "pendingInvites firstAnswered ''bb'' = Some 5"
    by (simp add: firstAnswered_def firstAnswered_eq) (simp add: invited_def)
  show ?thesis
    by (simp add: waitForInvite_def a b swarm_waitForInvite_def Let_def)
       (simp add: firstAnswered_def firstAnswered_eq)
qed

text \<open>
  C7 fails on the code. \<open>alice\<close> waits for her invite (waiter 9). A second call cancels
  waiter 9 and stores its own waiter 10 in the entry. The first call, rejected, answers
  \<open>false\<close>, and its \<open>finally\<close> sets \<open>entry.waiter\<close> to \<open>null\<close>: on the entry both
  calls share, where the waiter is 10 by now. A third call finds no waiter in the entry
  and cancels nothing: waiter 10 is outstanding next to the new waiter 11.
\<close>

theorem waitForInvite_third_call_leaves_second_waiter:
  "pi_waiter (inviteEntries invited 5) = Some 9
   \<and> swarmWaits invited 9 = Some Pending
   \<and> fst (waitForInvite invited ''bb'') = Await 10
   \<and> swarmWaits preempted 9 = Some (Settled (Rejected Cancelled))
   \<and> pi_waiter (inviteEntries preempted 5) = Some 10
   \<and> fst (waitForInvite_resume stubs preempted ''bb'' alice 5 9) = Return NotAccepted
   \<and> pi_waiter (inviteEntries firstAnswered 5) = None
   \<and> swarmWaits firstAnswered 10 = Some Pending
   \<and> fst (waitForInvite firstAnswered ''bb'') = Await 11
   \<and> swarmWaits thirdCall 10 = Some Pending
   \<and> swarmWaits thirdCall 11 = Some Pending"
proof -
  have 0: "pi_waiter (inviteEntries invited 5) = Some 9" "swarmWaits invited 9 = Some Pending"
    by (simp_all add: invited_def)
  have 1: "fst (waitForInvite invited ''bb'') = Await 10"
    "swarmWaits preempted 9 = Some (Settled (Rejected Cancelled))"
    "pi_waiter (inviteEntries preempted 5) = Some 10"
    by (simp_all add: preempted_def waitForInvite_invited)
  have 2: "fst (waitForInvite_resume stubs preempted ''bb'' alice 5 9) = Return NotAccepted"
    "pi_waiter (inviteEntries firstAnswered 5) = None"
    "swarmWaits firstAnswered 10 = Some Pending"
    by (simp_all add: firstAnswered_def firstAnswered_eq)
  have 3: "fst (waitForInvite firstAnswered ''bb'') = Await 11"
    "swarmWaits thirdCall 10 = Some Pending"
    "swarmWaits thirdCall 11 = Some Pending"
    by (simp_all add: thirdCall_def thirdCall_eq)
  show ?thesis
    using 0 1 2 3 by simp
qed

text \<open>
  What the handler does do: a waiter that the entry holds is cancelled before the new wait
  starts, and a rejected wait answers \<open>false\<close>, clears \<open>entry.waiter\<close> and leaves
  \<open>pendingInvites\<close> alone.
\<close>

lemma waitForInvite_cancels_held_waiter:
  assumes "identityByKey this identityKey = Some identity"
    and "pendingInvites this identityKey = Some entry"
    and "pi_waiter (inviteEntries this entry) = Some earlier"
    and "swarmWaits this earlier = Some Pending"
    and "earlier < nextId this"
  shows "fst (waitForInvite this identityKey) = Await (nextId this)
       \<and> swarmWaits (snd (waitForInvite this identityKey)) earlier
           = Some (Settled (Rejected Cancelled))
       \<and> swarmWaits (snd (waitForInvite this identityKey)) (nextId this) = Some Pending
       \<and> pi_waiter (inviteEntries (snd (waitForInvite this identityKey)) entry)
           = Some (nextId this)
       \<and> (\<forall>that e. swarmWaits that earlier = Some (Settled (Rejected e))
            \<longrightarrow> fst (waitForInvite_resume ext that identityKey identity entry earlier)
                  = Return NotAccepted
              \<and> snd (waitForInvite_resume ext that identityKey identity entry earlier)
                  = that\<lparr>inviteEntries := (inviteEntries that)
                            (entry := (inviteEntries that entry)\<lparr>pi_waiter := None\<rparr>)\<rparr>)
       \<and> pendingInvites
            (snd (waitForInvite_resume ext (snd (waitForInvite this identityKey))
                    identityKey identity entry earlier)) identityKey = Some entry
       \<and> fst (waitForInvite
                (snd (waitForInvite_resume ext (snd (waitForInvite this identityKey))
                        identityKey identity entry earlier)) identityKey)
           = Await (Suc (nextId this))"
proof -
  let ?this1 = "snd (waitForInvite this identityKey)"
  have head: "waitForInvite this identityKey =
      (Await (nextId this),
       this\<lparr>swarmWaits := (swarmWaits this)(earlier \<mapsto> Settled (Rejected Cancelled),
                                             nextId this \<mapsto> Pending),
            nextId := Suc (nextId this),
            inviteEntries := (inviteEntries this)
              (entry := (inviteEntries this entry)\<lparr>pi_waiter := Some (nextId this)\<rparr>)\<rparr>)"
    using assms
    by (simp add: waitForInvite_def cancel_def swarm_waitForInvite_def Let_def)
  have 1: "fst (waitForInvite this identityKey) = Await (nextId this)"
    by (simp add: head)
  have 2: "swarmWaits ?this1 earlier = Some (Settled (Rejected Cancelled))"
    using assms(5) by (simp add: head)
  have 3: "swarmWaits ?this1 (nextId this) = Some Pending"
    by (simp add: head)
  have 4: "pi_waiter (inviteEntries ?this1 entry) = Some (nextId this)"
    by (simp add: head)
  have 5: "fst (waitForInvite_resume ext that identityKey identity entry earlier)
                  = Return NotAccepted
              \<and> snd (waitForInvite_resume ext that identityKey identity entry earlier)
                  = that\<lparr>inviteEntries := (inviteEntries that)
                            (entry := (inviteEntries that entry)\<lparr>pi_waiter := None\<rparr>)\<rparr>"
    if "swarmWaits that earlier = Some (Settled (Rejected e))" for that e
    using that by (simp add: waitForInvite_resume_def Let_def)
  let ?this2 = "snd (waitForInvite_resume ext ?this1 identityKey identity entry earlier)"
  have r: "?this2 = ?this1\<lparr>inviteEntries := (inviteEntries ?this1)
                            (entry := (inviteEntries ?this1 entry)\<lparr>pi_waiter := None\<rparr>)\<rparr>"
    using 5[OF 2] by simp
  have 6: "pendingInvites ?this2 identityKey = Some entry"
    using assms(2) by (simp add: r) (simp add: head)
  have id2: "identityByKey ?this2 identityKey = Some identity"
    using assms(1) by (simp add: r identityByKey_def) (simp add: head)
  have w2: "pi_waiter (inviteEntries ?this2 entry) = None"
    by (simp add: r)
  have n2: "nextId ?this2 = Suc (nextId this)"
    by (simp add: r) (simp add: head)
  have 7: "fst (waitForInvite ?this2 identityKey) = Await (Suc (nextId this))"
    using 6 id2 w2 n2
    by (simp add: waitForInvite_def swarm_waitForInvite_def Let_def)
  show ?thesis
    using 1 2 3 4 5 6 7 by blast
qed

end
